theory Spec2Isabelle
  imports Main "HOL-Library.AList" "HOL-Library.Sublist"
begin

section \<open>Python values\<close>

text \<open>
  \<^verbatim>\<open>GoogleHelper.py\<close> works on the decoded JSON of the People API: nested dicts and
  lists of strings, numbers, booleans and \<^verbatim>\<open>None\<close>. A dict is an association list in
  insertion order, as Python keeps it; its keys are strings. Numbers are integers.
\<close>

datatype json =
    JNull
  | JBool bool
  | JInt int
  | JStr string
  | JList "json list"
  | JDict "(string \<times> json) list"

text \<open>The built-in exceptions that the operations on these values raise.\<close>

datatype py_exc = KeyError json | TypeError | IndexError | AttributeError

text \<open>Truth value of an object, as \<^verbatim>\<open>if x:\<close> tests it.\<close>

fun py_truthy :: "json \<Rightarrow> bool" where
  "py_truthy JNull = False"
| "py_truthy (JBool b) = b"
| "py_truthy (JInt i) = (i \<noteq> 0)"
| "py_truthy (JStr s) = (s \<noteq> [])"
| "py_truthy (JList xs) = (xs \<noteq> [])"
| "py_truthy (JDict kvs) = (kvs \<noteq> [])"

text \<open>
  \<^verbatim>\<open>for x in v\<close>: a list yields its elements, a dict its keys, a string its characters
  (each a string of length one); nothing else is iterable.
\<close>

fun py_iter :: "json \<Rightarrow> py_exc + json list" where
  "py_iter (JList xs) = Inr xs"
| "py_iter (JDict kvs) = Inr (map (\<lambda>kv. JStr (fst kv)) kvs)"
| "py_iter (JStr s) = Inr (map (\<lambda>c. JStr [c]) s)"
| "py_iter JNull = Inl TypeError"
| "py_iter (JBool b) = Inl TypeError"
| "py_iter (JInt i) = Inl TypeError"

text \<open>
  \<^verbatim>\<open>xs[i]\<close> on a sequence of length \<open>n\<close>: the positions \<open>0 .. n-1\<close>, which
  \<open>-n .. -1\<close> name as well, from the end; \<^verbatim>\<open>IndexError\<close> outside.
\<close>

definition seq_index :: "'a list \<Rightarrow> int \<Rightarrow> py_exc + 'a" where
  "seq_index xs i =
     (if 0 \<le> i \<and> i < int (length xs) then Inr (xs ! nat i)
      else if i < 0 \<and> - i \<le> int (length xs) then Inr (xs ! nat (int (length xs) + i))
      else Inl IndexError)"

text \<open>
  \<^verbatim>\<open>v[k]\<close>. A dict raises \<^verbatim>\<open>KeyError\<close> for a key it does not hold and \<^verbatim>\<open>TypeError\<close>
  for an unhashable key; a list or a string takes an integer (a boolean is one) and raises
  \<^verbatim>\<open>TypeError\<close> for any other key; \<^verbatim>\<open>None\<close>, booleans and numbers are not
  subscriptable.
\<close>

fun py_getitem :: "json \<Rightarrow> json \<Rightarrow> py_exc + json" where
  "py_getitem (JDict kvs) (JStr k) =
     (case map_of kvs k of None \<Rightarrow> Inl (KeyError (JStr k)) | Some v \<Rightarrow> Inr v)"
| "py_getitem (JDict kvs) (JList ks) = Inl TypeError"
| "py_getitem (JDict kvs) (JDict ks) = Inl TypeError"
| "py_getitem (JDict kvs) k = Inl (KeyError k)"
| "py_getitem (JList xs) (JInt i) = seq_index xs i"
| "py_getitem (JList xs) (JBool b) = seq_index xs (if b then 1 else 0)"
| "py_getitem (JList xs) k = Inl TypeError"
| "py_getitem (JStr s) (JInt i) = map_sum id (\<lambda>c. JStr [c]) (seq_index s i)"
| "py_getitem (JStr s) (JBool b) =
     map_sum id (\<lambda>c. JStr [c]) (seq_index s (if b then 1 else 0))"
| "py_getitem (JStr s) k = Inl TypeError"
| "py_getitem v k = Inl TypeError"

text \<open>\<^verbatim>\<open>v.get(k, d)\<close>: only a dict has the method.\<close>

fun py_get :: "json \<Rightarrow> string \<Rightarrow> json \<Rightarrow> py_exc + json" where
  "py_get (JDict kvs) k d = Inr (case map_of kvs k of None \<Rightarrow> d | Some v \<Rightarrow> v)"
| "py_get v k d = Inl AttributeError"

text \<open>
  A list comprehension \<^verbatim>\<open>[f(x) for x in xs]\<close> whose body may raise: the elements
  are evaluated in order and the first exception ends the comprehension.
\<close>

fun comprehend :: "('a \<Rightarrow> py_exc + 'b) \<Rightarrow> 'a list \<Rightarrow> py_exc + 'b list" where
  "comprehend f [] = Inr []"
| "comprehend f (x # xs) =
     (case f x of
        Inl e \<Rightarrow> Inl e
      | Inr y \<Rightarrow> (case comprehend f xs of Inl e \<Rightarrow> Inl e | Inr ys \<Rightarrow> Inr (y # ys)))"

text \<open>\<^verbatim>\<open>[x for x in xs if p(x)]\<close> with a condition that may raise.\<close>

fun comprehend_if :: "('a \<Rightarrow> py_exc + bool) \<Rightarrow> 'a list \<Rightarrow> py_exc + 'a list" where
  "comprehend_if p [] = Inr []"
| "comprehend_if p (x # xs) =
     (case p x of
        Inl e \<Rightarrow> Inl e
      | Inr b \<Rightarrow>
          (case comprehend_if p xs of
             Inl e \<Rightarrow> Inl e
           | Inr ys \<Rightarrow> Inr (if b then x # ys else ys)))"

section \<open>The label filter\<close>

text \<open>
  \<^verbatim>\<open>self.labelFilter\<close>: the include and the exclude list of label ids. The
  constructor replaces a missing filter by two empty lists. (The fields are the entries
  \<^verbatim>\<open>"include"\<close> and \<^verbatim>\<open>"exclude"\<close> of the dict.)
\<close>

record label_filter =
  include_ids :: "string list"
  exclude_ids :: "string list"

text \<open>\<^verbatim>\<open>x in ids\<close> on a list of strings compares by equality: only a string can be found.\<close>

fun label_in :: "string list \<Rightarrow> json \<Rightarrow> bool" where
  "label_in ids (JStr s) = (s \<in> set ids)"
| "label_in ids v = False"

text \<open>\<^verbatim>\<open>contactLabel["contactGroupMembership"]["contactGroupId"]\<close>\<close>

definition contactGroupId :: "json \<Rightarrow> py_exc + json" where
  "contactGroupId contactLabel =
     (case py_getitem contactLabel (JStr ''contactGroupMembership'') of
        Inl e \<Rightarrow> Inl e
      | Inr m \<Rightarrow> py_getitem m (JStr ''contactGroupId''))"

text \<open>
  The inner comprehension of lines 77-82 and 85-87,
  \<^verbatim>\<open>[test(contactLabel[...][...]) for contactLabel in contact["memberships"]]\<close>:
  the iterable is evaluated first, then the test of every membership.
\<close>

definition label_flags :: "(json \<Rightarrow> bool) \<Rightarrow> json \<Rightarrow> py_exc + bool list" where
  "label_flags test contact =
     (case py_getitem contact (JStr ''memberships'') of
        Inl e \<Rightarrow> Inl e
      | Inr ms \<Rightarrow>
          (case py_iter ms of
             Inl e \<Rightarrow> Inl e
           | Inr labels \<Rightarrow>
               comprehend
                 (\<lambda>contactLabel. map_sum id test (contactGroupId contactLabel)) labels))"

text \<open>
  The condition of the include branch, \<^verbatim>\<open>any([...]) and all([...])\<close>: the second list
  is built only when the first holds a true element.
\<close>

definition keep_include :: "label_filter \<Rightarrow> json \<Rightarrow> py_exc + bool" where
  "keep_include lf contact =
     (case label_flags (\<lambda>g. label_in (include_ids lf) g) contact of
        Inl e \<Rightarrow> Inl e
      | Inr incl \<Rightarrow>
          if list_ex id incl
          then map_sum id (list_all id) (label_flags (\<lambda>g. \<not> label_in (exclude_ids lf) g) contact)
          else Inr False)"

text \<open>The condition of the exclude branch, \<^verbatim>\<open>all([...])\<close>.\<close>

definition keep_exclude :: "label_filter \<Rightarrow> json \<Rightarrow> py_exc + bool" where
  "keep_exclude lf contact =
     map_sum id (list_all id) (label_flags (\<lambda>g. \<not> label_in (exclude_ids lf) g) contact)"

text \<open>\<^verbatim>\<open>Google.__filterContactsByLabel\<close>\<close>

definition filterContactsByLabel :: "label_filter \<Rightarrow> json list \<Rightarrow> py_exc + json list" where
  "filterContactsByLabel lf contactList =
     (if include_ids lf \<noteq> [] then comprehend_if (keep_include lf) contactList
      else if exclude_ids lf \<noteq> [] then comprehend_if (keep_exclude lf) contactList
      else Inr contactList)"

subsection \<open>What the filter is meant to compute\<close>

text \<open>The group id of one membership entry, if it carries one.\<close>

definition group_id_of :: "json \<Rightarrow> json option" where
  "group_id_of m =
     (case m of
        JDict kv \<Rightarrow>
          (case map_of kv ''contactGroupMembership'' of
             Some (JDict kv') \<Rightarrow> map_of kv' ''contactGroupId''
           | _ \<Rightarrow> None)
      | _ \<Rightarrow> None)"

text \<open>The group ids of a contact's memberships.\<close>

definition labels_of :: "json \<Rightarrow> json list" where
  "labels_of c =
     (case c of
        JDict kv \<Rightarrow>
          (case map_of kv ''memberships'' of
             Some (JList ms) \<Rightarrow> List.map_filter group_id_of ms
           | _ \<Rightarrow> [])
      | _ \<Rightarrow> [])"

text \<open>The contact has a membership in one of the groups \<open>ids\<close>.\<close>

definition has_label :: "string list \<Rightarrow> json \<Rightarrow> bool" where
  "has_label ids c = list_ex (label_in ids) (labels_of c)"

text \<open>
  A contact that carries a memberships entry, each element of which carries a
  \<^verbatim>\<open>contactGroupMembership.contactGroupId\<close>. (An empty string or an empty dict as
  the entry has no element at all.)
\<close>

definition carries_memberships :: "json \<Rightarrow> bool" where
  "carries_memberships c =
     (case c of
        JDict kv \<Rightarrow>
          (case map_of kv ''memberships'' of
             Some (JList ms) \<Rightarrow> list_all (\<lambda>m. group_id_of m \<noteq> None) ms
           | Some (JStr s) \<Rightarrow> s = []
           | Some (JDict d) \<Rightarrow> d = []
           | _ \<Rightarrow> False)
      | _ \<Rightarrow> False)"

section \<open>The adapter and the remote service\<close>

text \<open>
  What \<^verbatim>\<open>.execute()\<close> of a request gives: the decoded JSON of the response, or an
  \<^verbatim>\<open>HttpError\<close>, of which the code reads the reason only.
\<close>

datatype response = Ok json | HttpFail string

text \<open>A request: the method of the API and the keyword arguments it is built with.\<close>

datatype request = Request string "(string \<times> json) list"

text \<open>
  \<^verbatim>\<open>self.service\<close>. The remote side is not part of the program: \<open>answers\<close> gives
  the outcome of the first, second, ... request that is executed, whatever it is, and
  \<open>requests\<close> records the requests executed so far.
\<close>

record service =
  answers :: "nat \<Rightarrow> response"
  requests :: "request list"

definition execute :: "request \<Rightarrow> service \<Rightarrow> response \<times> service" where
  "execute r sv = (answers sv (length (requests sv)), sv\<lparr>requests := requests sv @ [r]\<rparr>)"

text \<open>
  A formatted message: the literal text of an f-string and the values put into it
  (\<open>Fmt v\<close> is \<^verbatim>\<open>str(v)\<close> of a value, \<open>FmtExc e\<close> is \<^verbatim>\<open>str(e)\<close> of a built-in
  exception).
\<close>

datatype frag = Lit string | Fmt json | FmtExc py_exc

type_synonym msg = "frag list"

datatype level = INFO | WARNING | ERROR

text \<open>
  What a method raises: a built-in exception, the \<^verbatim>\<open>HttpError\<close> of the API client
  with its reason, or \<^verbatim>\<open>Exception(msg)\<close>.
\<close>

datatype error = Raised py_exc | HttpError string | Exception msg

text \<open>
  The fields of \<^verbatim>\<open>class Google\<close>. \<open>log\<close> holds the records written to
  \<^verbatim>\<open>self.log\<close>, \<open>stdout\<close> the texts written to the standard output, in order.

  Modelled from the spec: \<^verbatim>\<open>DatabaseHelper.Database\<close> is not part of the sources. The
  spec says of the sync token that "if a persistence collaborator is configured, the token is
  handed to it for storage": \<open>database\<close> is \<open>None\<close> without a handler and otherwise
  holds the tokens handed to \<^verbatim>\<open>updateGoogleNextSyncToken\<close>, in order.
\<close>

record google =
  log :: "(level \<times> msg) list"
  stdout :: "msg list"
  labelFilter :: label_filter
  database :: "json list option"
  apiRequests :: nat
  service :: service
  labelMapping :: "(string \<times> string) list"
  reverseLabelMapping :: "(string \<times> string) list"
  contacts :: "json list"
  dataAlreadyFetched :: bool
  createdContacts :: "json list"

definition syncFields :: string where
  "syncFields = ''addresses,biographies,birthdays,emailAddresses,genders,''
     @ ''memberships,metadata,names,nicknames,occupations,organizations,phoneNumbers''"

definition updateFields :: string where
  "updateFields = ''addresses,biographies,birthdays,clientData,emailAddresses,''
     @ ''events,externalIds,genders,imClients,interests,locales,locations,memberships,''
     @ ''miscKeywords,names,nicknames,occupations,organizations,phoneNumbers,relations,''
     @ ''sipAddresses,urls,userDefined''"

text \<open>The apostrophe that the messages put around a name or an id, and the line break.\<close>

definition apos :: frag where
  "apos = Lit [CHR 0x27]"

definition newline :: frag where
  "newline = Lit [CHR 0x0A]"

text \<open>\<^verbatim>\<open>self.log.info(msg)\<close> and the like.\<close>

definition log_msg :: "level \<Rightarrow> msg \<Rightarrow> google \<Rightarrow> google" where
  "log_msg l m s = s\<lparr>log := log s @ [(l, m)]\<rparr>"

text \<open>
  \<^verbatim>\<open>sys.stdout.write(m)\<close> writes the text as it is; \<^verbatim>\<open>print(m)\<close> writes the
  text and a line break after it.
\<close>

definition write_msg :: "msg \<Rightarrow> google \<Rightarrow> google" where
  "write_msg m s = s\<lparr>stdout := stdout s @ [m]\<rparr>"

definition print_msg :: "msg \<Rightarrow> google \<Rightarrow> google" where
  "print_msg m s = s\<lparr>stdout := stdout s @ [m @ [newline]]\<rparr>"

text \<open>One request to the remote service through \<^verbatim>\<open>self.service\<close>.\<close>

definition call :: "request \<Rightarrow> google \<Rightarrow> response \<times> google" where
  "call r s = (fst (execute r (service s)), s\<lparr>service := snd (execute r (service s))\<rparr>)"

section \<open>Label names\<close>

text \<open>\<^verbatim>\<open>s.split(sep)\<close> for a separator of one character.\<close>

fun split_on :: "char \<Rightarrow> string \<Rightarrow> string list" where
  "split_on sep [] = [[]]"
| "split_on sep (c # cs) =
     (if c = sep then [] # split_on sep cs
      else (c # hd (split_on sep cs)) # tl (split_on sep cs))"

text \<open>
  \<^verbatim>\<open>Google.getLabelName\<close>: the second segment of the id is computed before the
  mapping is looked at.
\<close>

definition getLabelName :: "google \<Rightarrow> string \<Rightarrow> py_exc + string" where
  "getLabelName s labelString =
     (case seq_index (split_on CHR ''/'' labelString) 1 of
        Inl e \<Rightarrow> Inl e
      | Inr labelId \<Rightarrow>
          Inr (case map_of (reverseLabelMapping s) labelString of
                 None \<Rightarrow> labelId
               | Some name \<Rightarrow> name))"

section \<open>The payload builder\<close>

text \<open>A dict of the caller, with \<^verbatim>\<open>d.get(k, dflt)\<close>.\<close>

type_synonym dict = "(string \<times> json) list"

definition dict_get :: "dict \<Rightarrow> string \<Rightarrow> json \<Rightarrow> json" where
  "dict_get d k dflt = (case map_of d k of None \<Rightarrow> dflt | Some v \<Rightarrow> v)"

text \<open>
  \<^verbatim>\<open>address["country"].get(key, None) if address["country"] else None\<close>: the condition
  subscripts the address, and a true country must have the method \<^verbatim>\<open>get\<close>.
\<close>

definition country_field :: "dict \<Rightarrow> string \<Rightarrow> py_exc + json" where
  "country_field address key =
     (case py_getitem (JDict address) (JStr ''country'') of
        Inl e \<Rightarrow> Inl e
      | Inr c \<Rightarrow>
          if py_truthy c
          then (case py_getitem (JDict address) (JStr ''country'') of
                  Inl e \<Rightarrow> Inl e
                | Inr c' \<Rightarrow> py_get c' key JNull)
          else Inr JNull)"

text \<open>One element of the comprehension of lines 331-342.\<close>

definition address_entry :: "dict \<Rightarrow> py_exc + json" where
  "address_entry address =
     (case country_field address ''name'' of
        Inl e \<Rightarrow> Inl e
      | Inr country \<Rightarrow>
          (case country_field address ''iso'' of
             Inl e \<Rightarrow> Inl e
           | Inr countryCode \<Rightarrow>
               Inr (JDict
                 [(''type'', dict_get address ''name'' (JStr [])),
                  (''streetAddress'', dict_get address ''street'' (JStr [])),
                  (''city'', dict_get address ''city'' (JStr [])),
                  (''region'', dict_get address ''province'' (JStr [])),
                  (''postalCode'', dict_get address ''postal_code'' (JStr [])),
                  (''country'', country),
                  (''countryCode'', countryCode)])))"

text \<open>
  \<^verbatim>\<open>GoogleContactUploadForm.__init__\<close>, with the arguments in the order of the source
  and the types of its annotations; the result is \<^verbatim>\<open>self.data\<close>, which
  \<^verbatim>\<open>getData\<close> returns. An argument left out is the empty string, dict or list.
\<close>

definition GoogleContactUploadForm ::
  "string \<Rightarrow> string \<Rightarrow> string \<Rightarrow> dict \<Rightarrow> string list \<Rightarrow> dict \<Rightarrow> string list \<Rightarrow> string list
     \<Rightarrow> dict list \<Rightarrow> py_exc + json" where
  "GoogleContactUploadForm firstName lastName middleName birthdate phoneNumbers career
       emailAdresses labelIds addresses =
     (let data0 =
            [(''names'', JList [JDict [(''familyName'', JStr lastName),
                                       (''givenName'', JStr firstName),
                                       (''middleName'', JStr middleName)]])];
          data1 =
            (if birthdate \<noteq> []
             then AList.update ''birthdays''
                    (JList [JDict [(''date'',
                       JDict [(''year'', dict_get birthdate ''year'' (JInt 0)),
                              (''month'', dict_get birthdate ''month'' (JInt 0)),
                              (''day'', dict_get birthdate ''day'' (JInt 0))])]]) data0
             else data0);
          data2 =
            (if career \<noteq> []
             then AList.update ''organizations''
                    (JList [JDict [(''name'', dict_get career ''company'' (JStr [])),
                                   (''title'', dict_get career ''job'' (JStr []))]]) data1
             else data1)
      in case (if addresses \<noteq> []
               then map_sum id (\<lambda>entries. AList.update ''addresses'' (JList entries) data2)
                      (comprehend address_entry addresses)
               else Inr data2) of
           Inl e \<Rightarrow> Inl e
         | Inr data3 \<Rightarrow>
             (let data4 =
                    (if phoneNumbers \<noteq> []
                     then AList.update ''phoneNumbers''
                            (JList (map (\<lambda>number. JDict [(''value'', JStr number),
                                                          (''type'', JStr ''other'')])
                                      phoneNumbers)) data3
                     else data3);
                  data5 =
                    (if emailAdresses \<noteq> []
                     then AList.update ''emailAddresses''
                            (JList (map (\<lambda>email. JDict [(''value'', JStr email),
                                                         (''type'', JStr ''other'')])
                                      emailAdresses)) data4
                     else data4);
                  data6 =
                    (if labelIds \<noteq> []
                     then AList.update ''memberships''
                            (JList (map (\<lambda>labelId. JDict [(''contactGroupMembership'',
                                           JDict [(''contactGroupResourceName'', JStr labelId)])])
                                      labelIds)) data5
                     else data5)
              in Inr (JDict data6)))"

section \<open>Strings of values\<close>









section \<open>Fetching one contact\<close>







section \<open>Creating and updating a contact\<close>

text \<open>\<^verbatim>\<open>data['names'][0]\<close>, which the warning of a failed upload is built from.\<close>

definition name_entry :: "json \<Rightarrow> py_exc + json" where
  "name_entry data =
     (case py_getitem data (JStr ''names'') of
        Inl e \<Rightarrow> Inl e
      | Inr names \<Rightarrow> py_getitem names (JInt 0))"

text \<open>\<^verbatim>\<open>result.get('names', [{}])[0].get('displayName', 'error')\<close>\<close>

definition display_name :: "json \<Rightarrow> py_exc + json" where
  "display_name result =
     (case py_get result ''names'' (JList [JDict []]) of
        Inl e \<Rightarrow> Inl e
      | Inr names \<Rightarrow>
          (case py_getitem names (JInt 0) of
             Inl e \<Rightarrow> Inl e
           | Inr n \<Rightarrow> py_get n ''displayName'' (JStr ''error'')))"

text \<open>
  \<^verbatim>\<open>self.createdContacts[id] = True\<close>. Every value of the dict is \<^verbatim>\<open>True\<close>, so
  the dict is the list of its keys. A list or a dict is not hashable; \<^verbatim>\<open>True\<close> and
  \<^verbatim>\<open>1\<close> are the same key, and so are \<^verbatim>\<open>False\<close> and \<^verbatim>\<open>0\<close>.
\<close>

fun dict_key :: "json \<Rightarrow> py_exc + json" where
  "dict_key (JList xs) = Inl TypeError"
| "dict_key (JDict kvs) = Inl TypeError"
| "dict_key (JBool b) = Inr (JInt (if b then 1 else 0))"
| "dict_key v = Inr v"

definition mark_created :: "json \<Rightarrow> json list \<Rightarrow> py_exc + json list" where
  "mark_created k created =
     (case dict_key k of
        Inl e \<Rightarrow> Inl e
      | Inr k' \<Rightarrow> Inr (if Inr k' \<in> set (map dict_key created) then created else created @ [k]))"

definition upload_failed :: "string \<Rightarrow> json \<Rightarrow> string \<Rightarrow> msg" where
  "upload_failed what n reason =
     [apos, Fmt n, apos, Lit '':Failed to '', Lit what, Lit '' Google contact. Reason: '', Lit reason]"

definition uploaded :: "string \<Rightarrow> json \<Rightarrow> json \<Rightarrow> msg" where
  "uploaded what name rid =
     [apos, Fmt name, apos, Lit '': Contact with id '', apos, Fmt rid, apos, Lit '' '', Lit what,
      Lit '' successfully'']"

text \<open>
  The handler of \<^verbatim>\<open>HttpError\<close> in \<^verbatim>\<open>createContact\<close> and \<^verbatim>\<open>updateContact\<close>: the
  message is built first, then logged and printed, and the method returns \<^verbatim>\<open>None\<close>.
\<close>

definition upload_handler :: "string \<Rightarrow> json \<Rightarrow> string \<Rightarrow> google \<Rightarrow> (error + json) \<times> google" where
  "upload_handler what data reason s =
     (case name_entry data of
        Inl e \<Rightarrow> (Inl (Raised e), s)
      | Inr n \<Rightarrow>
          (Inr JNull,
           print_msg (newline # upload_failed what n reason)
             (log_msg WARNING (upload_failed what n reason) s)))"

text \<open>\<^verbatim>\<open>Google.createContact\<close>\<close>

definition createContact :: "json \<Rightarrow> google \<Rightarrow> (error + json) \<times> google" where
  "createContact data s =
     (case call (Request ''people.createContact''
                   [(''personFields'', JStr syncFields), (''body'', data)]) s of
        (HttpFail reason, s1) \<Rightarrow> upload_handler ''create'' data reason s1
      | (Ok result, s1) \<Rightarrow>
          (let s2 = s1\<lparr>apiRequests := apiRequests s1 + 1\<rparr>
           in case py_get result ''resourceName'' (JStr ''-'') of
                Inl e \<Rightarrow> (Inl (Raised e), s2)
              | Inr rid \<Rightarrow>
                  (case display_name result of
                     Inl e \<Rightarrow> (Inl (Raised e), s2)
                   | Inr name \<Rightarrow>
                       (case mark_created rid (createdContacts s2) of
                          Inl e \<Rightarrow> (Inl (Raised e), s2)
                        | Inr created \<Rightarrow>
                            (Inr result,
                             log_msg INFO (uploaded ''created'' name rid)
                               (s2\<lparr>createdContacts := created,
                                   contacts := contacts s2 @ [result]\<rparr>))))))"

text \<open>
  \<^verbatim>\<open>Google.updateContact\<close>: \<^verbatim>\<open>data['resourceName']\<close> is evaluated when the
  request is built, inside the \<^verbatim>\<open>try\<close>, which catches \<^verbatim>\<open>HttpError\<close> only.
\<close>

definition updateContact :: "json \<Rightarrow> google \<Rightarrow> (error + json) \<times> google" where
  "updateContact data s =
     (case py_getitem data (JStr ''resourceName'') of
        Inl e \<Rightarrow> (Inl (Raised e), s)
      | Inr resourceName \<Rightarrow>
          (case call (Request ''people.updateContact''
                        [(''resourceName'', resourceName),
                         (''updatePersonFields'', JStr updateFields),
                         (''body'', data)]) s of
             (HttpFail reason, s1) \<Rightarrow> upload_handler ''update'' data reason s1
           | (Ok result, s1) \<Rightarrow>
               (let s2 = s1\<lparr>apiRequests := apiRequests s1 + 1\<rparr>
                in case py_get result ''resourceName'' (JStr ''-'') of
                     Inl e \<Rightarrow> (Inl (Raised e), s2)
                   | Inr rid \<Rightarrow>
                       (case display_name result of
                          Inl e \<Rightarrow> (Inl (Raised e), s2)
                        | Inr name \<Rightarrow>
                            (Inr result,
                             log_msg INFO (uploaded ''updated'' name rid)
                               (log_msg INFO [Lit ''Contact has not been saved internally!'']
                                  s2))))))"

section \<open>Fetching all contacts\<close>

text \<open>
  The loop of \<^verbatim>\<open>Google.__fetchContacts\<close> (lines 173-183), from the state in which
  \<open>acc\<close> is the local list \<^verbatim>\<open>contacts\<close>. It ends with the last \<^verbatim>\<open>result\<close>, or
  with what was raised; the dict \<^verbatim>\<open>parameters\<close> is the caller's, so it is returned as
  the loop leaves it. The loop runs as long as the pages carry a true
  \<^verbatim>\<open>nextPageToken\<close>: \<open>None\<close> is a loop that never ends.
\<close>

partial_function (option) fetch_loop ::
  "dict \<Rightarrow> json list \<Rightarrow> google \<Rightarrow> ((error + json) \<times> dict \<times> google) option" where
  "fetch_loop parameters acc s =
     (case call (Request ''people.connections.list'' parameters) s of
        (HttpFail reason, s1) \<Rightarrow> Some (Inl (HttpError reason), parameters, s1)
      | (Ok result, s1) \<Rightarrow>
          (case py_get result ''nextPageToken'' (JBool False) of
             Inl e \<Rightarrow> Some (Inl (Raised e), parameters, s1\<lparr>apiRequests := apiRequests s1 + 1\<rparr>)
           | Inr nextPageToken \<Rightarrow>
               (case py_get result ''connections'' (JList []) of
                  Inl e \<Rightarrow>
                    Some (Inl (Raised e), parameters, s1\<lparr>apiRequests := apiRequests s1 + 1\<rparr>)
                | Inr connections \<Rightarrow>
                    (case py_iter connections of
                       Inl e \<Rightarrow>
                         Some (Inl (Raised e), parameters,
                               s1\<lparr>apiRequests := apiRequests s1 + 1\<rparr>)
                     | Inr page \<Rightarrow>
                         if py_truthy nextPageToken
                         then fetch_loop (AList.update ''pageToken'' nextPageToken parameters)
                                (acc @ page) (s1\<lparr>apiRequests := apiRequests s1 + 1\<rparr>)
                         else (case filterContactsByLabel (labelFilter s1) (acc @ page) of
                                 Inl e \<Rightarrow>
                                   Some (Inl (Raised e), parameters,
                                         s1\<lparr>apiRequests := apiRequests s1 + 1\<rparr>)
                               | Inr filtered \<Rightarrow>
                                   Some (Inr result, parameters,
                                         s1\<lparr>apiRequests := apiRequests s1 + 1,
                                            contacts := filtered\<rparr>))))))"

text \<open>
  Lines 185-187: the sync token of the last page goes to the database, when there is a
  token and a database.
\<close>

definition store_sync_token :: "json \<Rightarrow> google \<Rightarrow> (error + unit) \<times> google" where
  "store_sync_token result s =
     (case py_get result ''nextSyncToken'' JNull of
        Inl e \<Rightarrow> (Inl (Raised e), s)
      | Inr nextSyncToken \<Rightarrow>
          (case database s of
             Some tokens \<Rightarrow>
               if py_truthy nextSyncToken
               then (Inr (), s\<lparr>database := Some (tokens @ [nextSyncToken])\<rparr>)
               else (Inr (), s)
           | None \<Rightarrow> (Inr (), s)))"

text \<open>\<^verbatim>\<open>Google.__fetchContacts\<close>\<close>

definition fetchContacts :: "dict \<Rightarrow> google \<Rightarrow> ((error + unit) \<times> dict \<times> google) option" where
  "fetchContacts parameters s =
     (case fetch_loop parameters [] s of
        None \<Rightarrow> None
      | Some (Inl e, parameters', s') \<Rightarrow> Some (Inl e, parameters', s')
      | Some (Inr result, parameters', s') \<Rightarrow>
          Some (fst (store_sync_token result s'), parameters', snd (store_sync_token result s')))"

text \<open>\<^verbatim>\<open>sub in s\<close> on strings.\<close>

fun contains :: "string \<Rightarrow> string \<Rightarrow> bool" where
  "contains sub [] = (sub = [])"
| "contains sub (c # cs) = (prefix sub (c # cs) \<or> contains sub cs)"

text \<open>\<^verbatim>\<open>parameters.pop(key)\<close>\<close>

definition dict_pop :: "string \<Rightarrow> dict \<Rightarrow> py_exc + dict" where
  "dict_pop k d =
     (case map_of d k of
        None \<Rightarrow> Inl (KeyError (JStr k))
      | Some v \<Rightarrow> Inr (AList.delete k d))"

text \<open>The dict literal of lines 139-143, with \<^verbatim>\<open>**params\<close> merged in last.\<close>

definition list_parameters :: "dict \<Rightarrow> dict" where
  "list_parameters params =
     fold (\<lambda>kv. AList.update (fst kv) (snd kv)) params
       [(''resourceName'', JStr ''people/me''),
        (''pageSize'', JInt 1000),
        (''personFields'', JStr syncFields),
        (''requestSyncToken'', JBool True)]"

text \<open>Lines 165-169, after a walk that succeeded.\<close>

definition fetch_finished :: "google \<Rightarrow> (error + json list) \<times> google" where
  "fetch_finished s =
     (Inr (contacts s),
      (print_msg [newline, Lit ''Finished fetching Google contacts'']
         (log_msg INFO [Lit ''Finished fetching Google contacts''] s))
        \<lparr>dataAlreadyFetched := True\<rparr>)"

definition token_expired :: msg where
  "token_expired =
     [Lit ''Sync token expired or invalid. Fetching again without token (full sync)...'']"

text \<open>
  \<^verbatim>\<open>Google.getContacts\<close>. The second walk is given the dict that the first walk has
  worked on, without its \<^verbatim>\<open>syncToken\<close>.
\<close>

definition getContacts :: "bool \<Rightarrow> dict \<Rightarrow> google \<Rightarrow> ((error + json list) \<times> google) option" where
  "getContacts refetchData params s =
     (let parameters = list_parameters params
      in if dataAlreadyFetched s \<and> \<not> refetchData then Some (Inr (contacts s), s)
         else
           (case fetchContacts parameters
                   (write_msg [Lit [CHR 0x0D], Lit ''Fetching Google contacts...'']
                      (log_msg INFO [Lit ''Fetching Google contacts...''] s)) of
              None \<Rightarrow> None
            | Some (Inr u, parameters', s1) \<Rightarrow> Some (fetch_finished s1)
            | Some (Inl (HttpError reason), parameters', s1) \<Rightarrow>
                if contains ''Sync token'' reason
                then (case dict_pop ''syncToken'' parameters' of
                        Inl e \<Rightarrow>
                          Some (Inl (Raised e),
                                print_msg (newline # token_expired)
                                  (log_msg WARNING token_expired s1))
                      | Inr parameters'' \<Rightarrow>
                          (case fetchContacts parameters''
                                  (print_msg (newline # token_expired)
                                     (log_msg WARNING token_expired s1)) of
                             None \<Rightarrow> None
                           | Some (Inl e, p, s2) \<Rightarrow> Some (Inl e, s2)
                           | Some (Inr u, p, s2) \<Rightarrow> Some (fetch_finished s2)))
                else Some (Inl (Exception [Lit reason]), s1)
            | Some (Inl e, parameters', s1) \<Rightarrow> Some (Inl e, s1)))"

section \<open>Example data\<close>

text \<open>A membership entry and a contact as the People API returns them.\<close>

definition membership :: "string \<Rightarrow> json" where
  "membership g = JDict [(''contactGroupMembership'', JDict [(''contactGroupId'', JStr g)])]"

definition person :: "string \<Rightarrow> string list \<Rightarrow> json" where
  "person rn gs = JDict [(''resourceName'', JStr rn), (''memberships'', JList (map membership gs))]"

text \<open>
  A remote side that gives the listed outcomes, one for each request in turn, and fails
  every request after them.
\<close>

definition answers_of :: "response list \<Rightarrow> nat \<Rightarrow> response" where
  "answers_of rs i = (if i < length rs then rs ! i else HttpFail ''no further answer'')"

text \<open>An adapter that has fetched nothing yet.\<close>

definition adapter :: "label_filter \<Rightarrow> response list \<Rightarrow> google" where
  "adapter lf rs =
     \<lparr>log = [], stdout = [], labelFilter = lf, database = None, apiRequests = 0,
      service = \<lparr>answers = answers_of rs, requests = []\<rparr>,
      labelMapping = [], reverseLabelMapping = [], contacts = [],
      dataAlreadyFetched = False, createdContacts = []\<rparr>"

definition no_filter :: label_filter where
  "no_filter = \<lparr>include_ids = [], exclude_ids = []\<rparr>"

section \<open>Notions for the statements\<close>

text \<open>The outcome that the remote side has for the next request.\<close>

definition next_answer :: "google \<Rightarrow> response" where
  "next_answer s = answers (service s) (length (requests (service s)))"

text \<open>The adapter after it has executed the request \<open>r\<close>: the request is recorded.\<close>

definition sent :: "request \<Rightarrow> google \<Rightarrow> google" where
  "sent r s = s\<lparr>service := (service s)\<lparr>requests := requests (service s) @ [r]\<rparr>\<rparr>"

text \<open>The adapter after a request has been answered: the counter of requests goes up.\<close>

definition answered :: "request \<Rightarrow> google \<Rightarrow> google" where
  "answered r s = (sent r s)\<lparr>apiRequests := apiRequests s + 1\<rparr>"


definition create_request :: "json \<Rightarrow> request" where
  "create_request data =
     Request ''people.createContact'' [(''personFields'', JStr syncFields), (''body'', data)]"

definition update_request :: "json \<Rightarrow> json \<Rightarrow> request" where
  "update_request resourceName data =
     Request ''people.updateContact''
       [(''resourceName'', resourceName), (''updatePersonFields'', JStr updateFields),
        (''body'', data)]"

subsection \<open>Pages of a listing\<close>

text \<open>The request for a page of the listing.\<close>

definition list_request :: "dict \<Rightarrow> request" where
  "list_request parameters = Request ''people.connections.list'' parameters"

text \<open>
  A result page: a dict whose \<^verbatim>\<open>connections\<close>, when present, is a list. Its token is
  the \<^verbatim>\<open>nextPageToken\<close> that the loop goes on with: one that is present and true (a
  non-empty string, for the tokens of the API).
\<close>

definition is_page :: "json \<Rightarrow> bool" where
  "is_page p =
     (case p of
        JDict kv \<Rightarrow>
          (case map_of kv ''connections'' of
             None \<Rightarrow> True
           | Some (JList cs) \<Rightarrow> True
           | Some v \<Rightarrow> False)
      | _ \<Rightarrow> False)"

definition page_token :: "json \<Rightarrow> json option" where
  "page_token p =
     (case p of
        JDict kv \<Rightarrow>
          (case map_of kv ''nextPageToken'' of
             None \<Rightarrow> None
           | Some t \<Rightarrow> if py_truthy t then Some t else None)
      | _ \<Rightarrow> None)"

definition page_contacts :: "json \<Rightarrow> json list" where
  "page_contacts p =
     (case p of
        JDict kv \<Rightarrow> (case map_of kv ''connections'' of Some (JList cs) \<Rightarrow> cs | _ \<Rightarrow> [])
      | _ \<Rightarrow> [])"

text \<open>A finite sequence of pages, each of which but the last carries a token.\<close>

fun paged :: "json list \<Rightarrow> bool" where
  "paged [] = False"
| "paged [p] = (is_page p \<and> page_token p = None)"
| "paged (p # q # ps) = (is_page p \<and> page_token p \<noteq> None \<and> paged (q # ps))"

text \<open>The remote side has the outcomes \<open>rs\<close> for the next requests, in this order.\<close>

definition serves :: "google \<Rightarrow> response list \<Rightarrow> bool" where
  "serves s rs =
     (\<forall>i<length rs. answers (service s) (length (requests (service s)) + i) = rs ! i)"

text \<open>The parameters of the request that follows a page.\<close>

definition next_parameters :: "dict \<Rightarrow> json \<Rightarrow> dict" where
  "next_parameters parameters p =
     (case page_token p of
        None \<Rightarrow> parameters
      | Some t \<Rightarrow> AList.update ''pageToken'' t parameters)"

text \<open>
  The parameters of the requests for the pages \<open>ps\<close>, one request for each page, and
  the parameters after the last of them.
\<close>

fun walk_parameters :: "dict \<Rightarrow> json list \<Rightarrow> dict list" where
  "walk_parameters parameters [] = []"
| "walk_parameters parameters (p # ps) =
     parameters # walk_parameters (next_parameters parameters p) ps"

fun final_parameters :: "dict \<Rightarrow> json list \<Rightarrow> dict" where
  "final_parameters parameters [] = parameters"
| "final_parameters parameters (p # ps) = final_parameters (next_parameters parameters p) ps"

text \<open>The adapter after the pages \<open>ps\<close> have been requested and answered.\<close>

fun walked :: "dict \<Rightarrow> json list \<Rightarrow> google \<Rightarrow> google" where
  "walked parameters [] s = s"
| "walked parameters (p # ps) s =
     walked (next_parameters parameters p) ps (answered (list_request parameters) s)"

subsection \<open>Outcomes of a call\<close>

text \<open>What a call returned or raised, and the requests made when it ended.\<close>

definition returned :: "('a \<times> google) option \<Rightarrow> 'a option" where
  "returned r = (case r of None \<Rightarrow> None | Some (x, s) \<Rightarrow> Some x)"

definition requests_made :: "('a \<times> google) option \<Rightarrow> request list" where
  "requests_made r = (case r of None \<Rightarrow> [] | Some (x, s) \<Rightarrow> requests (service s))"

subsection \<open>Addresses and walks\<close>

text \<open>
  An address that the builder can shape: it carries a \<^verbatim>\<open>country\<close> entry that is
  \<^verbatim>\<open>None\<close> (or empty), or a dict.
\<close>

definition country_ok :: "dict \<Rightarrow> bool" where
  "country_ok address =
     (case map_of address ''country'' of
        None \<Rightarrow> False
      | Some c \<Rightarrow> \<not> py_truthy c \<or> (case c of JDict kv \<Rightarrow> True | _ \<Rightarrow> False))"

text \<open>
  What a walk returned or raised, the cache after it and the requests made when it ended.
\<close>

definition walk_returned :: "('a \<times> dict \<times> google) option \<Rightarrow> 'a option" where
  "walk_returned r = (case r of None \<Rightarrow> None | Some (x, p, s) \<Rightarrow> Some x)"

definition walk_cache :: "('a \<times> dict \<times> google) option \<Rightarrow> json list option" where
  "walk_cache r = (case r of None \<Rightarrow> None | Some (x, p, s) \<Rightarrow> Some (contacts s))"

definition walk_requests :: "('a \<times> dict \<times> google) option \<Rightarrow> request list" where
  "walk_requests r = (case r of None \<Rightarrow> [] | Some (x, p, s) \<Rightarrow> requests (service s))"

section \<open>Properties of the label filter\<close>

lemma comprehend_if_total:
  "(\<And>x. x \<in> set xs \<Longrightarrow> p x = Inr (q x)) \<Longrightarrow> comprehend_if p xs = Inr (filter q xs)"
  by (induction xs) auto

lemma comprehend_if_Inr_all:
  "comprehend_if p xs = Inr ys \<Longrightarrow> x \<in> set xs \<Longrightarrow> \<exists>b. p x = Inr b"
  by (induction xs arbitrary: ys) (auto split: sum.splits)

lemma contactGroupId_eq:
  "contactGroupId m = Inr g \<longleftrightarrow> group_id_of m = Some g"
  apply (cases m)
  apply (auto simp: contactGroupId_def group_id_of_def split: option.splits sum.splits json.splits)
  done


lemma comprehend_group_ids:
  "list_all (\<lambda>m. group_id_of m \<noteq> None) ms \<Longrightarrow>
   comprehend (\<lambda>l. map_sum id test (contactGroupId l)) ms
     = Inr (map test (List.map_filter group_id_of ms))"
proof (induction ms)
  case Nil
  show ?case by (simp add: List.map_filter_simps)
next
  case (Cons m ms)
  from Cons.prems obtain g where g: "group_id_of m = Some g" by auto
  then have "contactGroupId m = Inr g" by (simp add: contactGroupId_eq)
  with g Cons show ?case by (simp add: List.map_filter_simps)
qed

lemma label_flags_carries:
  assumes "carries_memberships c"
  shows "label_flags test c = Inr (map test (labels_of c))"
  using assms
  by (auto simp: carries_memberships_def label_flags_def labels_of_def comprehend_group_ids
      split: json.splits option.splits)

lemma comprehend_group_ids_conv:
  "comprehend (\<lambda>l. map_sum id test (contactGroupId l)) ms = Inr bs \<Longrightarrow>
   list_all (\<lambda>m. group_id_of m \<noteq> None) ms"
proof (induction ms arbitrary: bs)
  case Nil
  show ?case by simp
next
  case (Cons m ms)
  from Cons.prems obtain g where "contactGroupId m = Inr g"
    by (cases "contactGroupId m") auto
  then have "group_id_of m \<noteq> None" by (simp add: contactGroupId_eq)
  moreover from Cons have "list_all (\<lambda>m. group_id_of m \<noteq> None) ms"
    by (auto split: sum.splits)
  ultimately show ?case by simp
qed

lemma contactGroupId_JStr: "contactGroupId (JStr s) = Inl TypeError"
  by (simp add: contactGroupId_def)

lemma label_flags_Inr_carries:
  assumes "label_flags test c = Inr bs"
  shows "carries_memberships c"
proof (cases c)
  case (JDict kv)
  show ?thesis
  proof (cases "map_of kv ''memberships''")
    case None
    with JDict assms show ?thesis by (simp add: label_flags_def)
  next
    case (Some ms)
    show ?thesis
    proof (cases ms)
      case (JList l)
      with JDict Some assms show ?thesis
        by (auto simp: label_flags_def carries_memberships_def dest: comprehend_group_ids_conv)
    next
      case (JStr s)
      with JDict Some assms show ?thesis
        by (cases s) (auto simp: label_flags_def carries_memberships_def contactGroupId_JStr)
    next
      case (JDict d)
      with \<open>c = JDict kv\<close> Some assms show ?thesis
        by (cases d) (auto simp: label_flags_def carries_memberships_def contactGroupId_JStr)
    qed (use JDict Some assms in \<open>auto simp: label_flags_def\<close>)
  qed
qed (use assms in \<open>auto simp: label_flags_def\<close>)

lemma keep_include_carries:
  "carries_memberships c \<Longrightarrow>
   keep_include lf c = Inr (has_label (include_ids lf) c \<and> \<not> has_label (exclude_ids lf) c)"
  by (auto simp: keep_include_def label_flags_carries has_label_def list_ex_iff list_all_iff)

lemma keep_exclude_carries:
  "carries_memberships c \<Longrightarrow> keep_exclude lf c = Inr (\<not> has_label (exclude_ids lf) c)"
  by (auto simp: keep_exclude_def label_flags_carries has_label_def list_ex_iff list_all_iff)

lemma keep_include_Inr_carries: "keep_include lf c = Inr b \<Longrightarrow> carries_memberships c"
  by (auto simp: keep_include_def split: sum.splits dest: label_flags_Inr_carries)

lemma keep_exclude_Inr_carries: "keep_exclude lf c = Inr b \<Longrightarrow> carries_memberships c"
  by (cases "label_flags (\<lambda>g. \<not> label_in (exclude_ids lf) g) c")
     (auto simp: keep_exclude_def dest: label_flags_Inr_carries)


lemma comprehend_if_first_error:
  "(\<And>x. x \<in> set pre \<Longrightarrow> \<exists>b. p x = Inr b) \<Longrightarrow> p x = Inl e \<Longrightarrow>
   comprehend_if p (pre @ x # post) = Inl e"
proof (induction pre)
  case Nil
  then show ?case by simp
next
  case (Cons a pre)
  from Cons.prems(1)[of a] obtain b where "p a = Inr b" by auto
  moreover have "comprehend_if p (pre @ x # post) = Inl e"
    using Cons by simp
  ultimately show ?case by simp
qed

lemma label_flags_no_memberships:
  "map_of kv ''memberships'' = None \<Longrightarrow>
   label_flags test (JDict kv) = Inl (KeyError (JStr ''memberships''))"
  by (simp add: label_flags_def)

lemma filter_include_iff:
  assumes "include_ids lf \<noteq> []"
  shows "filterContactsByLabel lf cs = Inr ys \<longleftrightarrow>
         list_all carries_memberships cs \<and>
         ys = filter (\<lambda>c. has_label (include_ids lf) c \<and> \<not> has_label (exclude_ids lf) c) cs"
proof
  assume r: "filterContactsByLabel lf cs = Inr ys"
  with assms have c: "comprehend_if (keep_include lf) cs = Inr ys"
    by (simp add: filterContactsByLabel_def)
  have all: "list_all carries_memberships cs"
    unfolding list_all_iff
    using comprehend_if_Inr_all[OF c] keep_include_Inr_carries by blast
  then have "comprehend_if (keep_include lf) cs =
      Inr (filter (\<lambda>c. has_label (include_ids lf) c \<and> \<not> has_label (exclude_ids lf) c) cs)"
    by (intro comprehend_if_total) (simp add: list_all_iff keep_include_carries)
  with c all show "list_all carries_memberships cs \<and>
         ys = filter (\<lambda>c. has_label (include_ids lf) c \<and> \<not> has_label (exclude_ids lf) c) cs"
    by simp
next
  assume a: "list_all carries_memberships cs \<and>
         ys = filter (\<lambda>c. has_label (include_ids lf) c \<and> \<not> has_label (exclude_ids lf) c) cs"
  then have "comprehend_if (keep_include lf) cs = Inr ys"
    by (simp add: list_all_iff keep_include_carries comprehend_if_total)
  with assms show "filterContactsByLabel lf cs = Inr ys"
    by (simp add: filterContactsByLabel_def)
qed

lemma filter_exclude_iff:
  assumes "include_ids lf = []" "exclude_ids lf \<noteq> []"
  shows "filterContactsByLabel lf cs = Inr ys \<longleftrightarrow>
         list_all carries_memberships cs \<and>
         ys = filter (\<lambda>c. \<not> has_label (exclude_ids lf) c) cs"
proof
  assume r: "filterContactsByLabel lf cs = Inr ys"
  with assms have c: "comprehend_if (keep_exclude lf) cs = Inr ys"
    by (simp add: filterContactsByLabel_def)
  have all: "list_all carries_memberships cs"
    unfolding list_all_iff
    using comprehend_if_Inr_all[OF c] keep_exclude_Inr_carries by blast
  then have "comprehend_if (keep_exclude lf) cs =
      Inr (filter (\<lambda>c. \<not> has_label (exclude_ids lf) c) cs)"
    by (intro comprehend_if_total) (simp add: list_all_iff keep_exclude_carries)
  with c all show "list_all carries_memberships cs \<and>
         ys = filter (\<lambda>c. \<not> has_label (exclude_ids lf) c) cs"
    by simp
next
  assume a: "list_all carries_memberships cs \<and>
         ys = filter (\<lambda>c. \<not> has_label (exclude_ids lf) c) cs"
  then have "comprehend_if (keep_exclude lf) cs = Inr ys"
    by (simp add: list_all_iff keep_exclude_carries comprehend_if_total)
  with assms show "filterContactsByLabel lf cs = Inr ys"
    by (simp add: filterContactsByLabel_def)
qed

lemma filter_empty: "include_ids lf = [] \<Longrightarrow> exclude_ids lf = [] \<Longrightarrow> filterContactsByLabel lf cs = Inr cs"
  by (simp add: filterContactsByLabel_def)


lemmas fixture_defs = person_def membership_def carries_memberships_def has_label_def
  labels_of_def group_id_of_def List.map_filter_simps


text \<open>
  Claim C10. With a non-empty include or exclude list the filter returns a list only
  when every contact carries a memberships entry whose elements each carry a
  \<^verbatim>\<open>contactGroupMembership.contactGroupId\<close>. A contact without a memberships
  entry, after contacts that carry theirs, ends the filter with
  \<^verbatim>\<open>KeyError('memberships')\<close>: the contact is neither kept nor dropped. With both
  lists empty the filter returns any list unchanged.
\<close>

theorem label_filter_needs_memberships:
  "((include_ids lf \<noteq> [] \<or> exclude_ids lf \<noteq> []) \<longrightarrow>
       ((\<exists>ys. filterContactsByLabel lf cs = Inr ys) \<longleftrightarrow> list_all carries_memberships cs)
     \<and> (list_all carries_memberships pre \<and> map_of kv ''memberships'' = None \<longrightarrow>
          filterContactsByLabel lf (pre @ JDict kv # post) = Inl (KeyError (JStr ''memberships''))))
   \<and> (include_ids lf = [] \<and> exclude_ids lf = [] \<longrightarrow> filterContactsByLabel lf cs = Inr cs)"
proof (intro conjI impI)
  assume ne: "include_ids lf \<noteq> [] \<or> exclude_ids lf \<noteq> []"
  show "(\<exists>ys. filterContactsByLabel lf cs = Inr ys) \<longleftrightarrow> list_all carries_memberships cs"
    using ne by (cases "include_ids lf = []") (auto simp: filter_include_iff filter_exclude_iff)
next
  assume ne: "include_ids lf \<noteq> [] \<or> exclude_ids lf \<noteq> []"
    and h: "list_all carries_memberships pre \<and> map_of kv ''memberships'' = None"
  let ?e = "KeyError (JStr ''memberships'')"
  have ki: "keep_include lf (JDict kv) = Inl ?e"
    using h by (simp add: keep_include_def label_flags_no_memberships)
  have ke: "keep_exclude lf (JDict kv) = Inl ?e"
    using h by (simp add: keep_exclude_def label_flags_no_memberships)
  have pi: "\<And>x. x \<in> set pre \<Longrightarrow> \<exists>b. keep_include lf x = Inr b"
    using h by (simp add: list_all_iff keep_include_carries)
  have pe: "\<And>x. x \<in> set pre \<Longrightarrow> \<exists>b. keep_exclude lf x = Inr b"
    using h by (simp add: list_all_iff keep_exclude_carries)
  show "filterContactsByLabel lf (pre @ JDict kv # post) = Inl ?e"
    using ne comprehend_if_first_error[of pre "keep_include lf", OF pi ki]
      comprehend_if_first_error[of pre "keep_exclude lf", OF pe ke]
    by (auto simp: filterContactsByLabel_def)
next
  assume "include_ids lf = [] \<and> exclude_ids lf = []"
  then show "filterContactsByLabel lf cs = Inr cs" by (simp add: filter_empty)
qed

text \<open>
  A contact that a sync reports as deleted carries no memberships and ends the filter.
\<close>

theorem label_filter_needs_memberships_witness:
  "filterContactsByLabel \<lparr>include_ids = [], exclude_ids = [''contactGroups/b'']\<rparr>
      ([person ''people/1'' [''contactGroups/a'']]
        @ JDict [(''resourceName'', JStr ''people/2''), (''metadata'', JDict [(''deleted'', JBool True)])]
        # [person ''people/3'' []])
    = Inl (KeyError (JStr ''memberships''))
   \<and> (\<exists>ys. filterContactsByLabel \<lparr>include_ids = [''contactGroups/a''], exclude_ids = []\<rparr>
        [person ''people/1'' [''contactGroups/a'']] = Inr ys)
   \<and> \<not> (\<exists>ys. filterContactsByLabel \<lparr>include_ids = [''contactGroups/a''], exclude_ids = []\<rparr>
        [person ''people/1'' [''contactGroups/a''], JDict [(''resourceName'', JStr ''people/2'')]] = Inr ys)
   \<and> filterContactsByLabel \<lparr>include_ids = [], exclude_ids = []\<rparr>
        [JDict [(''resourceName'', JStr ''people/2'')]]
      = Inr [JDict [(''resourceName'', JStr ''people/2'')]]"
proof -
  let ?lf = "\<lparr>include_ids = [], exclude_ids = [''contactGroups/b'']\<rparr>"
  let ?lfa = "\<lparr>include_ids = [''contactGroups/a''], exclude_ids = []\<rparr>"
  let ?lfn = "\<lparr>include_ids = [], exclude_ids = []\<rparr>"
  let ?kv = "[(''resourceName'', JStr ''people/2''), (''metadata'', JDict [(''deleted'', JBool True)])]"
  let ?cb = "JDict [(''resourceName'', JStr ''people/2'')]"
  have 1: "filterContactsByLabel ?lf
      ([person ''people/1'' [''contactGroups/a'']] @ JDict ?kv # [person ''people/3'' []])
    = Inl (KeyError (JStr ''memberships''))"
    using label_filter_needs_memberships
      [of ?lf "[]" "[person ''people/1'' [''contactGroups/a'']]" ?kv "[person ''people/3'' []]"]
    by (simp add: fixture_defs)
  have 2: "\<exists>ys. filterContactsByLabel ?lfa [person ''people/1'' [''contactGroups/a'']] = Inr ys"
    using label_filter_needs_memberships
      [of ?lfa "[person ''people/1'' [''contactGroups/a'']]" "[]" "[]" "[]"]
    by (simp add: fixture_defs)
  have 3: "\<not> (\<exists>ys. filterContactsByLabel ?lfa [person ''people/1'' [''contactGroups/a''], ?cb] = Inr ys)"
    using label_filter_needs_memberships
      [of ?lfa "[person ''people/1'' [''contactGroups/a''], ?cb]" "[]" "[]" "[]"]
    by (simp add: fixture_defs)
  have 4: "filterContactsByLabel ?lfn [?cb] = Inr [?cb]"
    using label_filter_needs_memberships [of ?lfn "[?cb]" "[]" "[]" "[]"] by simp
  from 1 2 3 4 show ?thesis by (intro conjI)
qed

section \<open>Properties of the label names\<close>

lemma split_on_nonempty: "split_on sep s \<noteq> []"
  by (induction s) auto

lemma hd_split_on: "hd (split_on sep s) = takeWhile (\<lambda>c. c \<noteq> sep) s"
  by (induction s) auto

lemma tl_split_on:
  "tl (split_on sep s) =
     (if sep \<in> set s then split_on sep (tl (dropWhile (\<lambda>c. c \<noteq> sep) s)) else [])"
  by (induction s) auto

lemma seq_index_1:
  "seq_index xs 1 = (case tl xs of [] \<Rightarrow> Inl IndexError | y # ys \<Rightarrow> Inr y)"
  by (cases xs; cases "tl xs") (auto simp: seq_index_def)

lemma second_segment:
  "seq_index (split_on sep s) 1 =
     (if sep \<in> set s
      then Inr (takeWhile (\<lambda>c. c \<noteq> sep) (tl (dropWhile (\<lambda>c. c \<noteq> sep) s)))
      else Inl IndexError)"
proof (cases "sep \<in> set s")
  case True
  let ?r = "tl (dropWhile (\<lambda>c. c \<noteq> sep) s)"
  have "tl (split_on sep s) = split_on sep ?r" using True by (simp add: tl_split_on)
  moreover obtain y ys where "split_on sep ?r = y # ys"
    using split_on_nonempty[of sep ?r] by (cases "split_on sep ?r") auto
  moreover from this have "y = takeWhile (\<lambda>c. c \<noteq> sep) ?r"
    using hd_split_on[of sep ?r] by simp
  ultimately show ?thesis using True by (simp add: seq_index_1)
next
  case False
  then show ?thesis by (simp add: seq_index_1 tl_split_on)
qed

text \<open>
  Claim C9, as amended. For a label id that contains a \<^verbatim>\<open>/\<close>,
  \<^verbatim>\<open>getLabelName\<close> returns the name the reverse mapping gives the id, and for an
  id that is not mapped the segment between the first \<^verbatim>\<open>/\<close> and the next one (or
  the end of the string). For an id without \<^verbatim>\<open>/\<close> it raises
  \<^verbatim>\<open>IndexError\<close>, mapped or not.
\<close>

theorem getLabelName_second_segment:
  "(CHR ''/'' \<in> set labelString \<longrightarrow>
      getLabelName s labelString =
        Inr (case map_of (reverseLabelMapping s) labelString of
               Some name \<Rightarrow> name
             | None \<Rightarrow> takeWhile (\<lambda>c. c \<noteq> CHR ''/'')
                         (tl (dropWhile (\<lambda>c. c \<noteq> CHR ''/'') labelString))))
   \<and> (CHR ''/'' \<notin> set labelString \<longrightarrow> getLabelName s labelString = Inl IndexError)"
  by (auto simp: getLabelName_def second_segment split: option.splits)

text \<open>A mapped id, two ids that are not mapped, and an id without a separator.\<close>

theorem getLabelName_second_segment_witness:
  "getLabelName ((adapter no_filter [])\<lparr>reverseLabelMapping := [(''contactGroups/7e3a'', ''Family'')]\<rparr>)
      ''contactGroups/7e3a'' = Inr ''Family''
   \<and> getLabelName ((adapter no_filter [])\<lparr>reverseLabelMapping := [(''contactGroups/7e3a'', ''Family'')]\<rparr>)
      ''contactGroups/starred'' = Inr ''starred''
   \<and> getLabelName ((adapter no_filter [])\<lparr>reverseLabelMapping := [(''contactGroups/7e3a'', ''Family'')]\<rparr>)
      ''contactGroups/a/b'' = Inr ''a''
   \<and> getLabelName ((adapter no_filter [])\<lparr>reverseLabelMapping := [(''contactGroups/7e3a'', ''Family'')]\<rparr>)
      ''starred'' = Inl IndexError"
proof -
  let ?s = "(adapter no_filter [])\<lparr>reverseLabelMapping := [(''contactGroups/7e3a'', ''Family'')]\<rparr>"
  have a: "getLabelName ?s ''contactGroups/7e3a'' = Inr ''Family''"
    using getLabelName_second_segment [of "''contactGroups/7e3a''" ?s]
    by (simp add: adapter_def)
  have b: "getLabelName ?s ''contactGroups/starred'' = Inr ''starred''"
    using getLabelName_second_segment [of "''contactGroups/starred''" ?s]
    by (simp add: adapter_def)
  have c: "getLabelName ?s ''contactGroups/a/b'' = Inr ''a''"
    using getLabelName_second_segment [of "''contactGroups/a/b''" ?s]
    by (simp add: adapter_def)
  have d: "getLabelName ?s ''starred'' = Inl IndexError"
    using getLabelName_second_segment [of "''starred''" ?s]
    by simp
  from a b c d show ?thesis by (intro conjI)
qed

text \<open>
  Claim C9 as it is stated fails: the id \<^verbatim>\<open>myContacts\<close> is in the reverse mapping,
  and still no name is returned.
\<close>

theorem getLabelName_counterexample:
  "map_of (reverseLabelMapping ((adapter no_filter [])\<lparr>reverseLabelMapping := [(''myContacts'', ''My Contacts'')]\<rparr>))
      ''myContacts'' = Some ''My Contacts''
   \<and> getLabelName ((adapter no_filter [])\<lparr>reverseLabelMapping := [(''myContacts'', ''My Contacts'')]\<rparr>)
      ''myContacts'' = Inl IndexError"
  by (simp add: getLabelName_def seq_index_def adapter_def)

section \<open>Properties of the payload builder\<close>

lemma country_field_null:
  "map_of a ''country'' = Some c \<Longrightarrow> \<not> py_truthy c \<Longrightarrow> country_field a key = Inr JNull"
  by (simp add: country_field_def)

lemma country_field_dict:
  "map_of a ''country'' = Some (JDict co) \<Longrightarrow> co \<noteq> [] \<Longrightarrow>
   country_field a key = Inr (dict_get co key JNull)"
  by (simp add: country_field_def dict_get_def)

lemma country_field_missing:
  "map_of a ''country'' = None \<Longrightarrow> country_field a key = Inl (KeyError (JStr ''country''))"
  by (simp add: country_field_def)

lemma comprehend_list_all2:
  "comprehend f xs = Inr ys \<Longrightarrow> list_all2 (\<lambda>x y. f x = Inr y) xs ys"
proof (induction xs arbitrary: ys)
  case Nil
  then show ?case by simp
next
  case (Cons x xs)
  then show ?case by (auto split: sum.splits)
qed

lemma form_keys:
  assumes "GoogleContactUploadForm fn ln mn bd ph ca em la ad = Inr (JDict d)"
  shows "map fst d =
     [''names''] @ (if bd \<noteq> [] then [''birthdays''] else [])
       @ (if ca \<noteq> [] then [''organizations''] else [])
       @ (if ad \<noteq> [] then [''addresses''] else [])
       @ (if ph \<noteq> [] then [''phoneNumbers''] else [])
       @ (if em \<noteq> [] then [''emailAddresses''] else [])
       @ (if la \<noteq> [] then [''memberships''] else [])"
  using assms
  by (cases "comprehend address_entry ad")
     (auto simp: GoogleContactUploadForm_def Let_def split: if_splits)

lemma form_names:
  assumes "GoogleContactUploadForm fn ln mn bd ph ca em la ad = Inr (JDict d)"
  shows "map_of d ''names'' = Some (JList [JDict [(''familyName'', JStr ln),
            (''givenName'', JStr fn), (''middleName'', JStr mn)]])"
  using assms
  by (cases "comprehend address_entry ad")
     (auto simp: GoogleContactUploadForm_def Let_def update_conv' split: if_splits)

lemma form_addresses:
  assumes "GoogleContactUploadForm fn ln mn bd ph ca em la ad = Inr (JDict d)" "ad \<noteq> []"
  shows "\<exists>es. map_of d ''addresses'' = Some (JList es) \<and> comprehend address_entry ad = Inr es"
  using assms
  by (cases "comprehend address_entry ad")
     (auto simp: GoogleContactUploadForm_def Let_def update_conv' split: if_splits)

lemma form_total:
  assumes "comprehend address_entry ad = Inr es"
  shows "\<exists>d. GoogleContactUploadForm fn ln mn bd ph ca em la ad = Inr (JDict d)"
  using assms by (simp add: GoogleContactUploadForm_def Let_def)


text \<open>
  Claim C7, as amended. An address whose \<^verbatim>\<open>country\<close> entry is present and
  \<^verbatim>\<open>None\<close> (or empty) gives an address with country and countryCode null. When the
  entry is a non-empty dict, they are its \<^verbatim>\<open>name\<close> and \<^verbatim>\<open>iso\<close> entries, null
  where one is missing. An address with no \<^verbatim>\<open>country\<close> key raises
  \<^verbatim>\<open>KeyError('country')\<close>. The addresses group of the payload holds these entries,
  one for each supplied address, in order.
\<close>

theorem address_country_fields:
  "(map_of a ''country'' = Some c \<and> \<not> py_truthy c \<longrightarrow>
      (\<exists>e. address_entry a = Inr (JDict e)
          \<and> map_of e ''country'' = Some JNull \<and> map_of e ''countryCode'' = Some JNull))
   \<and> (map_of a ''country'' = Some (JDict co) \<and> co \<noteq> [] \<longrightarrow>
      (\<exists>e. address_entry a = Inr (JDict e)
          \<and> map_of e ''country'' = Some (dict_get co ''name'' JNull)
          \<and> map_of e ''countryCode'' = Some (dict_get co ''iso'' JNull)))
   \<and> (map_of a ''country'' = None \<longrightarrow> address_entry a = Inl (KeyError (JStr ''country'')))
   \<and> (GoogleContactUploadForm fn ln mn bd ph ca em la ad = Inr (JDict d) \<and> ad \<noteq> [] \<longrightarrow>
      (\<exists>es. map_of d ''addresses'' = Some (JList es)
          \<and> list_all2 (\<lambda>a e. address_entry a = Inr e) ad es))"
proof (intro conjI impI)
  assume "map_of a ''country'' = Some c \<and> \<not> py_truthy c"
  then show "\<exists>e. address_entry a = Inr (JDict e)
      \<and> map_of e ''country'' = Some JNull \<and> map_of e ''countryCode'' = Some JNull"
    by (simp add: address_entry_def country_field_null)
next
  assume "map_of a ''country'' = Some (JDict co) \<and> co \<noteq> []"
  then show "\<exists>e. address_entry a = Inr (JDict e)
      \<and> map_of e ''country'' = Some (dict_get co ''name'' JNull)
      \<and> map_of e ''countryCode'' = Some (dict_get co ''iso'' JNull)"
    by (simp add: address_entry_def country_field_dict)
next
  assume "map_of a ''country'' = None"
  then show "address_entry a = Inl (KeyError (JStr ''country''))"
    by (simp add: address_entry_def country_field_missing)
next
  assume "GoogleContactUploadForm fn ln mn bd ph ca em la ad = Inr (JDict d) \<and> ad \<noteq> []"
  then obtain es where "map_of d ''addresses'' = Some (JList es)"
      and "comprehend address_entry ad = Inr es"
    using form_addresses by blast
  then show "\<exists>es. map_of d ''addresses'' = Some (JList es)
      \<and> list_all2 (\<lambda>a e. address_entry a = Inr e) ad es"
    using comprehend_list_all2 by blast
qed

lemmas form_eval = GoogleContactUploadForm_def address_entry_def country_field_def dict_get_def

text \<open>
  An address with a null country, one with a country object, one without the key, and a
  payload built from one address.
\<close>

theorem address_country_fields_witness:
  "(\<exists>e. address_entry [(''street'', JStr ''Main St 1''), (''country'', JNull)] = Inr (JDict e)
       \<and> map_of e ''country'' = Some JNull \<and> map_of e ''countryCode'' = Some JNull)
   \<and> (\<exists>e. address_entry [(''country'', JDict [(''name'', JStr ''Germany''), (''iso'', JStr ''DE'')])]
          = Inr (JDict e)
       \<and> map_of e ''country'' = Some (JStr ''Germany'')
       \<and> map_of e ''countryCode'' = Some (JStr ''DE''))
   \<and> address_entry [(''street'', JStr ''Main St 1'')] = Inl (KeyError (JStr ''country''))
   \<and> (\<exists>es. map_of [(''names'', JList [JDict [(''familyName'', JStr ''Doe''),
                 (''givenName'', JStr ''Jo''), (''middleName'', JStr [])]]),
              (''addresses'', JList [JDict [(''type'', JStr []), (''streetAddress'', JStr []),
                 (''city'', JStr []), (''region'', JStr []), (''postalCode'', JStr []),
                 (''country'', JNull), (''countryCode'', JNull)]])] ''addresses''
            = Some (JList es)
        \<and> list_all2 (\<lambda>a e. address_entry a = Inr e) [[(''country'', JNull)]] es)"
proof -
  let ?a = "[(''street'', JStr ''Main St 1''), (''country'', JNull)]"
  let ?co = "[(''name'', JStr ''Germany''), (''iso'', JStr ''DE'')]"
  let ?b = "[(''country'', JDict ?co)]"
  let ?m = "[(''street'', JStr ''Main St 1'')]"
  let ?d = "[(''names'', JList [JDict [(''familyName'', JStr ''Doe''),
                 (''givenName'', JStr ''Jo''), (''middleName'', JStr [])]]),
              (''addresses'', JList [JDict [(''type'', JStr []), (''streetAddress'', JStr []),
                 (''city'', JStr []), (''region'', JStr []), (''postalCode'', JStr []),
                 (''country'', JNull), (''countryCode'', JNull)]])]"
  have f: "GoogleContactUploadForm ''Jo'' ''Doe'' [] [] [] [] [] [] [[(''country'', JNull)]]
      = Inr (JDict ?d)"
    by (simp add: form_eval)
  have w: "\<exists>e. address_entry ?a = Inr (JDict e)
       \<and> map_of e ''country'' = Some JNull \<and> map_of e ''countryCode'' = Some JNull"
    using address_country_fields [of ?a JNull] by simp
  have x: "\<exists>e. address_entry ?b = Inr (JDict e)
       \<and> map_of e ''country'' = Some (JStr ''Germany'')
       \<and> map_of e ''countryCode'' = Some (JStr ''DE'')"
    using address_country_fields [of ?b _ ?co] by (simp add: dict_get_def)
  have y: "address_entry ?m = Inl (KeyError (JStr ''country''))"
    using address_country_fields [of ?m] by simp
  have z: "\<exists>es. map_of ?d ''addresses'' = Some (JList es)
        \<and> list_all2 (\<lambda>a e. address_entry a = Inr e) [[(''country'', JNull)]] es"
    by (rule address_country_fields [of _ _ _ "''Jo''" "''Doe''" "[]" "[]" "[]" "[]" "[]" "[]"
        "[[(''country'', JNull)]]" ?d, THEN conjunct2, THEN conjunct2, THEN conjunct2, THEN mp])
       (simp add: f)
  from w x y z show ?thesis by (intro conjI)
qed

text \<open>
  Claim C7 as it is stated fails: for an address that has no \<^verbatim>\<open>country\<close> entry
  the builder produces no address at all.
\<close>

theorem address_without_country_counterexample:
  "GoogleContactUploadForm ''Jo'' ''Doe'' [] [] [] [] [] []
     [[(''name'', JStr ''home''), (''street'', JStr ''Main St 1''), (''city'', JStr ''Springfield'')]]
   = Inl (KeyError (JStr ''country''))"
  by (simp add: form_eval)

lemma country_field_ok: "country_ok a \<Longrightarrow> \<exists>v. country_field a key = Inr v"
  by (auto simp: country_ok_def country_field_def split: option.splits json.splits)

lemma country_field_bad: "\<not> country_ok a \<Longrightarrow> \<exists>e. country_field a key = Inl e"
  by (auto simp: country_ok_def country_field_def split: option.splits json.splits)

lemma address_entry_ok: "country_ok a \<Longrightarrow> \<exists>e. address_entry a = Inr e"
  using country_field_ok[of a "''name''"] country_field_ok[of a "''iso''"]
  by (auto simp: address_entry_def)

lemma address_entry_bad: "\<not> country_ok a \<Longrightarrow> \<exists>e. address_entry a = Inl e"
  using country_field_bad[of a "''name''"] by (auto simp: address_entry_def)

lemma comprehend_all_ok:
  "(\<And>x. x \<in> set xs \<Longrightarrow> \<exists>y. f x = Inr y) \<Longrightarrow> \<exists>ys. comprehend f xs = Inr ys"
proof (induction xs)
  case Nil
  show ?case by simp
next
  case (Cons x xs)
  from Cons.prems[of x] obtain y where "f x = Inr y" by auto
  moreover from Cons obtain ys where "comprehend f xs = Inr ys" by auto
  ultimately show ?case by simp
qed

lemma comprehend_some_bad:
  "x \<in> set xs \<Longrightarrow> f x = Inl e \<Longrightarrow> \<exists>e'. comprehend f xs = Inl e'"
  by (induction xs) (auto split: sum.splits)

lemma form_raises:
  assumes "comprehend address_entry ad = Inl e"
  shows "GoogleContactUploadForm fn ln mn bd ph ca em la ad = Inl e"
proof -
  from assms have "ad \<noteq> []" by auto
  with assms show ?thesis by (simp add: GoogleContactUploadForm_def Let_def)
qed

lemma form_returns:
  assumes "list_all country_ok ad"
  shows "\<exists>d. GoogleContactUploadForm fn ln mn bd ph ca em la ad = Inr (JDict d)"
proof -
  have "\<And>a. a \<in> set ad \<Longrightarrow> \<exists>e. address_entry a = Inr e"
    using assms by (simp add: list_all_iff address_entry_ok)
  then have "\<exists>es. comprehend address_entry ad = Inr es"
    by (rule comprehend_all_ok)
  then obtain es where "comprehend address_entry ad = Inr es" ..
  then show ?thesis by (rule form_total)
qed

lemma form_fails:
  assumes "\<not> list_all country_ok ad"
  shows "\<exists>e. GoogleContactUploadForm fn ln mn bd ph ca em la ad = Inl e"
proof -
  from assms obtain a where a: "a \<in> set ad" and b: "\<not> country_ok a"
    by (auto simp: list_all_iff)
  from b have "\<exists>x. address_entry a = Inl x" by (rule address_entry_bad)
  then obtain x where x: "address_entry a = Inl x" ..
  from a x have "\<exists>e. comprehend address_entry ad = Inl e" by (rule comprehend_some_bad)
  then obtain e where "comprehend address_entry ad = Inl e" ..
  then have "GoogleContactUploadForm fn ln mn bd ph ca em la ad = Inl e" by (rule form_raises)
  then show ?thesis ..
qed

text \<open>
  Claim C8, as amended. With every optional input empty, the payload is the names group
  alone, with the three name parts. When every supplied address carries a
  \<^verbatim>\<open>country\<close> entry that is \<^verbatim>\<open>None\<close> (or empty) or a dict, the builder returns a
  payload; otherwise it raises and there is no payload. A payload that is returned holds
  the names group, each optional group exactly when its input is non-empty, and no other
  key; no key occurs twice.
\<close>

theorem form_groups:
  "GoogleContactUploadForm fn ln mn [] [] [] [] [] [] =
      Inr (JDict [(''names'', JList [JDict [(''familyName'', JStr ln),
            (''givenName'', JStr fn), (''middleName'', JStr mn)]])])
   \<and> (list_all country_ok ad \<longrightarrow>
        (\<exists>d. GoogleContactUploadForm fn ln mn bd ph ca em la ad = Inr (JDict d)))
   \<and> (\<not> list_all country_ok ad \<longrightarrow>
        (\<exists>e. GoogleContactUploadForm fn ln mn bd ph ca em la ad = Inl e))
   \<and> (GoogleContactUploadForm fn ln mn bd ph ca em la ad = Inr (JDict d) \<longrightarrow>
        map_of d ''names'' = Some (JList [JDict [(''familyName'', JStr ln),
            (''givenName'', JStr fn), (''middleName'', JStr mn)]])
      \<and> (''birthdays'' \<in> set (map fst d) \<longleftrightarrow> bd \<noteq> [])
      \<and> (''organizations'' \<in> set (map fst d) \<longleftrightarrow> ca \<noteq> [])
      \<and> (''addresses'' \<in> set (map fst d) \<longleftrightarrow> ad \<noteq> [])
      \<and> (''phoneNumbers'' \<in> set (map fst d) \<longleftrightarrow> ph \<noteq> [])
      \<and> (''emailAddresses'' \<in> set (map fst d) \<longleftrightarrow> em \<noteq> [])
      \<and> (''memberships'' \<in> set (map fst d) \<longleftrightarrow> la \<noteq> [])
      \<and> set (map fst d) \<subseteq> {''names'', ''birthdays'', ''organizations'', ''addresses'',
            ''phoneNumbers'', ''emailAddresses'', ''memberships''}
      \<and> distinct (map fst d))"
proof (intro conjI impI)
  show "GoogleContactUploadForm fn ln mn [] [] [] [] [] [] =
      Inr (JDict [(''names'', JList [JDict [(''familyName'', JStr ln),
            (''givenName'', JStr fn), (''middleName'', JStr mn)]])])"
    by (simp add: GoogleContactUploadForm_def)
next
  assume "list_all country_ok ad"
  then show "\<exists>d. GoogleContactUploadForm fn ln mn bd ph ca em la ad = Inr (JDict d)"
    by (rule form_returns)
next
  assume "\<not> list_all country_ok ad"
  then show "\<exists>e. GoogleContactUploadForm fn ln mn bd ph ca em la ad = Inl e"
    by (rule form_fails)
next
  assume r: "GoogleContactUploadForm fn ln mn bd ph ca em la ad = Inr (JDict d)"
  note k = form_keys[OF r]
  show "map_of d ''names'' = Some (JList [JDict [(''familyName'', JStr ln),
            (''givenName'', JStr fn), (''middleName'', JStr mn)]])"
    by (rule form_names[OF r])
  show "''birthdays'' \<in> set (map fst d) \<longleftrightarrow> bd \<noteq> []" by (simp add: k)
  show "''organizations'' \<in> set (map fst d) \<longleftrightarrow> ca \<noteq> []" by (simp add: k)
  show "''addresses'' \<in> set (map fst d) \<longleftrightarrow> ad \<noteq> []" by (simp add: k)
  show "''phoneNumbers'' \<in> set (map fst d) \<longleftrightarrow> ph \<noteq> []" by (simp add: k)
  show "''emailAddresses'' \<in> set (map fst d) \<longleftrightarrow> em \<noteq> []" by (simp add: k)
  show "''memberships'' \<in> set (map fst d) \<longleftrightarrow> la \<noteq> []" by (simp add: k)
  show "set (map fst d) \<subseteq> {''names'', ''birthdays'', ''organizations'', ''addresses'',
            ''phoneNumbers'', ''emailAddresses'', ''memberships''}"
    unfolding k by auto
  show "distinct (map fst d)" unfolding k by simp
qed

text \<open>
  The empty form; a form with a phone number and an address with its country, which has
  the addresses group; and a form whose address has no country entry.
\<close>

theorem form_groups_witness:
  "GoogleContactUploadForm [] [] [] [] [] [] [] [] [] =
      Inr (JDict [(''names'', JList [JDict [(''familyName'', JStr []),
            (''givenName'', JStr []), (''middleName'', JStr [])]])])
   \<and> (\<exists>d. GoogleContactUploadForm ''Jo'' ''Doe'' [] [] [''+1 555 0100''] [] [] []
          [[(''street'', JStr ''Main St 1''),
            (''country'', JDict [(''name'', JStr ''Germany''), (''iso'', JStr ''DE'')])]]
        = Inr (JDict d)
      \<and> ''addresses'' \<in> set (map fst d)
      \<and> ''phoneNumbers'' \<in> set (map fst d)
      \<and> ''birthdays'' \<notin> set (map fst d))
   \<and> (\<exists>e. GoogleContactUploadForm ''Jo'' ''Doe'' [] [] [''+1 555 0100''] [] [] []
          [[(''street'', JStr ''Main St 1'')]] = Inl e)"
proof -
  let ?ad = "[[(''street'', JStr ''Main St 1''),
            (''country'', JDict [(''name'', JStr ''Germany''), (''iso'', JStr ''DE'')])]]"
  let ?bad = "[[(''street'', JStr ''Main St 1'')]]"
  have ok: "list_all country_ok ?ad" by (simp add: country_ok_def)
  have bad: "\<not> list_all country_ok ?bad" by (simp add: country_ok_def)
  have a: "GoogleContactUploadForm [] [] [] [] [] [] [] [] [] =
      Inr (JDict [(''names'', JList [JDict [(''familyName'', JStr []),
            (''givenName'', JStr []), (''middleName'', JStr [])]])])"
    by (rule form_groups [where fn = "[]" and ln = "[]" and mn = "[]", THEN conjunct1])
  obtain d where f: "GoogleContactUploadForm ''Jo'' ''Doe'' [] [] [''+1 555 0100''] [] [] [] ?ad
      = Inr (JDict d)"
    using form_groups [where fn = "''Jo''" and ln = "''Doe''" and mn = "[]" and bd = "[]"
      and ph = "[''+1 555 0100'']" and ca = "[]" and em = "[]" and la = "[]" and ad = ?ad,
      THEN conjunct2, THEN conjunct1, THEN mp, OF ok]
    by (rule exE)
  note g = form_groups [where fn = "''Jo''" and ln = "''Doe''" and mn = "[]" and bd = "[]"
      and ph = "[''+1 555 0100'']" and ca = "[]" and em = "[]" and la = "[]" and ad = ?ad
      and d = d, THEN conjunct2, THEN conjunct2, THEN conjunct2, THEN mp, OF f]
  have c: "''addresses'' \<in> set (map fst d)"
    by (rule g [THEN conjunct2, THEN conjunct2, THEN conjunct2, THEN conjunct1, THEN iffD2])
       simp
  have p: "''phoneNumbers'' \<in> set (map fst d)"
    by (rule g [THEN conjunct2, THEN conjunct2, THEN conjunct2, THEN conjunct2, THEN conjunct1,
          THEN iffD2]) simp
  have n: "''birthdays'' \<notin> set (map fst d)"
  proof
    assume "''birthdays'' \<in> set (map fst d)"
    then have "([] :: dict) \<noteq> []" by (rule g [THEN conjunct2, THEN conjunct1, THEN iffD1])
    then show False by simp
  qed
  have e: "\<exists>e. GoogleContactUploadForm ''Jo'' ''Doe'' [] [] [''+1 555 0100''] [] [] [] ?bad = Inl e"
    by (rule form_groups [where fn = "''Jo''" and ln = "''Doe''" and mn = "[]" and bd = "[]"
          and ph = "[''+1 555 0100'']" and ca = "[]" and em = "[]" and la = "[]" and ad = ?bad,
          THEN conjunct2, THEN conjunct2, THEN conjunct1, THEN mp, OF bad])
  from f c p n have b: "\<exists>d. GoogleContactUploadForm ''Jo'' ''Doe'' [] [] [''+1 555 0100''] [] [] [] ?ad
        = Inr (JDict d)
      \<and> ''addresses'' \<in> set (map fst d)
      \<and> ''phoneNumbers'' \<in> set (map fst d)
      \<and> ''birthdays'' \<notin> set (map fst d)"
    by (intro exI [of _ d] conjI)
  from a b e show ?thesis by (intro conjI)
qed

text \<open>
  Claim C8 as it is stated fails: a phone number and an address are supplied, the address
  has no \<^verbatim>\<open>country\<close> entry, and there is no payload in which their groups could
  appear.
\<close>

theorem form_without_payload_counterexample:
  "GoogleContactUploadForm ''Jo'' ''Doe'' [] [] [''+1 555 0100''] [] [] []
     [[(''street'', JStr ''Main St 1'')]]
   = Inl (KeyError (JStr ''country''))"
  by (rule form_raises) (simp add: address_entry_def country_field_def)

section \<open>Properties of creating and updating\<close>

lemma call_eq: "call r s = (next_answer s, sent r s)"
  by (simp add: call_def execute_def next_answer_def sent_def)

lemma contacts_sent [simp]: "contacts (sent r s) = contacts s"
  by (simp add: sent_def)

lemma contacts_log_msg [simp]: "contacts (log_msg l m s) = contacts s"
  by (simp add: log_msg_def)

lemma contacts_print_msg [simp]: "contacts (print_msg m s) = contacts s"
  by (simp add: print_msg_def)

lemma contacts_write_msg [simp]: "contacts (write_msg m s) = contacts s"
  by (simp add: write_msg_def)

lemma contacts_upload_handler [simp]:
  "contacts (snd (upload_handler what data reason s)) = contacts s"
  by (simp add: upload_handler_def split: sum.splits)

lemma createContact_failure:
  assumes "next_answer s = HttpFail reason"
  shows "createContact data s = upload_handler ''create'' data reason (sent (create_request data) s)"
  using assms by (simp add: createContact_def call_eq create_request_def)

lemma updateContact_failure:
  assumes "py_getitem data (JStr ''resourceName'') = Inr rn" "next_answer s = HttpFail reason"
  shows "updateContact data s = upload_handler ''update'' data reason (sent (update_request rn data) s)"
  using assms by (simp add: updateContact_def call_eq update_request_def)

text \<open>
  The soft failure of an upload. For a payload whose \<^verbatim>\<open>names\<close> entry has a first
  element (and, for an update, which carries a \<^verbatim>\<open>resourceName\<close>), a request that
  fails with an \<^verbatim>\<open>HttpError\<close> does not make \<^verbatim>\<open>createContact\<close> or
  \<^verbatim>\<open>updateContact\<close> raise: the method logs a warning, prints it, and returns
  \<^verbatim>\<open>None\<close>. The warning holds the name entry of the payload.
\<close>

theorem upload_failure_soft:
  "(name_entry data = Inr n \<and> next_answer s = HttpFail reason \<longrightarrow>
      createContact data s =
        (Inr JNull,
         print_msg (newline # upload_failed ''create'' n reason)
           (log_msg WARNING (upload_failed ''create'' n reason) (sent (create_request data) s))))
   \<and> (name_entry data = Inr n \<and> py_getitem data (JStr ''resourceName'') = Inr rn
        \<and> next_answer s = HttpFail reason \<longrightarrow>
      updateContact data s =
        (Inr JNull,
         print_msg (newline # upload_failed ''update'' n reason)
           (log_msg WARNING (upload_failed ''update'' n reason) (sent (update_request rn data) s))))
   \<and> Fmt n \<in> set (upload_failed what n reason)"
  by (auto simp: createContact_failure updateContact_failure upload_handler_def upload_failed_def)

lemma updateContact_contacts: "contacts (snd (updateContact data s)) = contacts s"
  by (cases "next_answer s")
     (auto simp: updateContact_def call_eq Let_def split: sum.splits)

lemma createContact_success:
  assumes "next_answer s = Ok result" "createContact data s = (Inr r, s')"
  shows "r = result \<and> contacts s' = contacts s @ [result]"
  using assms by (auto simp: createContact_def call_eq Let_def split: sum.splits)

text \<open>
  Claim C5. \<^verbatim>\<open>updateContact\<close> leaves the cached contacts as they are, whatever the
  payload and whatever the remote side answers, also when the method raises. When
  \<^verbatim>\<open>createContact\<close> returns a contact, it is the created record and the cache has
  it appended; when the request fails the cache is unchanged.
\<close>

theorem updateContact_keeps_cache:
  "contacts (snd (updateContact data s)) = contacts s
   \<and> (next_answer s = Ok result \<and> createContact data s = (Inr r, s') \<longrightarrow>
        r = result \<and> contacts s' = contacts s @ [result])
   \<and> (next_answer s = HttpFail reason \<longrightarrow> contacts (snd (createContact data s)) = contacts s)"
  using updateContact_contacts [of data s] createContact_success [of s result data r s']
  by (simp add: createContact_failure)


lemma next_answer_adapter: "next_answer (adapter lf (r # rs)) = r"
  by (simp add: next_answer_def adapter_def answers_of_def)

lemma next_answer_contacts_update [simp]: "next_answer (s\<lparr>contacts := cs\<rparr>) = next_answer s"
  by (simp add: next_answer_def)

text \<open>
  A payload with a name, created and updated against a remote side that refuses.
\<close>

theorem upload_failure_soft_witness:
  "fst (createContact
          (JDict [(''names'', JList [JDict [(''givenName'', JStr ''Jo'')]])])
          (adapter no_filter [HttpFail ''Quota exceeded''])) = Inr JNull
   \<and> log (snd (createContact
          (JDict [(''names'', JList [JDict [(''givenName'', JStr ''Jo'')]])])
          (adapter no_filter [HttpFail ''Quota exceeded''])))
      = [(WARNING, upload_failed ''create'' (JDict [(''givenName'', JStr ''Jo'')]) ''Quota exceeded'')]
   \<and> fst (updateContact
          (JDict [(''resourceName'', JStr ''people/c1''),
                  (''names'', JList [JDict [(''givenName'', JStr ''Jo'')]])])
          (adapter no_filter [HttpFail ''Quota exceeded''])) = Inr JNull
   \<and> log (snd (updateContact
          (JDict [(''resourceName'', JStr ''people/c1''),
                  (''names'', JList [JDict [(''givenName'', JStr ''Jo'')]])])
          (adapter no_filter [HttpFail ''Quota exceeded''])))
      = [(WARNING, upload_failed ''update'' (JDict [(''givenName'', JStr ''Jo'')]) ''Quota exceeded'')]"
proof -
  let ?n = "JDict [(''givenName'', JStr ''Jo'')]"
  let ?c = "JDict [(''names'', JList [?n])]"
  let ?u = "JDict [(''resourceName'', JStr ''people/c1''), (''names'', JList [?n])]"
  let ?s = "adapter no_filter [HttpFail ''Quota exceeded'']"
  have nc: "name_entry ?c = Inr ?n" by (simp add: name_entry_def seq_index_def)
  have nu: "name_entry ?u = Inr ?n" by (simp add: name_entry_def seq_index_def)
  have ru: "py_getitem ?u (JStr ''resourceName'') = Inr (JStr ''people/c1'')" by simp
  have a: "next_answer ?s = HttpFail ''Quota exceeded''" by (rule next_answer_adapter)
  have l: "log ?s = []" by (simp add: adapter_def)
  note c = upload_failure_soft [of ?c ?n ?s "''Quota exceeded''", THEN conjunct1, THEN mp,
      OF conjI [OF nc a]]
  note u = upload_failure_soft [of ?u ?n ?s "''Quota exceeded''" "JStr ''people/c1''",
      THEN conjunct2, THEN conjunct1, THEN mp, OF conjI [OF nu conjI [OF ru a]]]
  have "fst (createContact ?c ?s) = Inr JNull" by (simp add: c)
  moreover have "log (snd (createContact ?c ?s))
      = [(WARNING, upload_failed ''create'' ?n ''Quota exceeded'')]"
    by (simp add: c print_msg_def log_msg_def sent_def l)
  moreover have "fst (updateContact ?u ?s) = Inr JNull" by (simp add: u)
  moreover have "log (snd (updateContact ?u ?s))
      = [(WARNING, upload_failed ''update'' ?n ''Quota exceeded'')]"
    by (simp add: u print_msg_def log_msg_def sent_def l)
  ultimately show ?thesis by (intro conjI)
qed

text \<open>
  Claim C4, at a payload without a \<^verbatim>\<open>names\<close> entry (a contact that has an email
  address only). The request fails with an \<^verbatim>\<open>HttpError\<close>; the handler builds its
  warning from \<^verbatim>\<open>data['names'][0]\<close> and raises \<^verbatim>\<open>KeyError('names')\<close>: the
  method raises on a remote failure, and nothing is logged.
\<close>

theorem upload_failure_handler_raises:
  "fst (updateContact
          (JDict [(''resourceName'', JStr ''people/c1''),
                  (''emailAddresses'', JList [JDict [(''value'', JStr ''jo@example.org'')]])])
          (adapter no_filter [HttpFail ''Quota exceeded'']))
     = Inl (Raised (KeyError (JStr ''names'')))
   \<and> log (snd (updateContact
          (JDict [(''resourceName'', JStr ''people/c1''),
                  (''emailAddresses'', JList [JDict [(''value'', JStr ''jo@example.org'')]])])
          (adapter no_filter [HttpFail ''Quota exceeded''])))
     = []
   \<and> fst (createContact
          (JDict [(''emailAddresses'', JList [JDict [(''value'', JStr ''jo@example.org'')]])])
          (adapter no_filter [HttpFail ''Quota exceeded'']))
     = Inl (Raised (KeyError (JStr ''names'')))"
  by (simp add: updateContact_def createContact_def call_def execute_def adapter_def
      answers_of_def upload_handler_def name_entry_def)

text \<open>
  An update and a creation on a cache of one contact.
\<close>

theorem updateContact_keeps_cache_witness:
  "contacts (snd (updateContact
       (JDict [(''resourceName'', JStr ''people/c1''), (''names'', JList [JDict [(''givenName'', JStr ''Jo'')]])])
       ((adapter no_filter [Ok (JDict [(''resourceName'', JStr ''people/c1'')])])
          \<lparr>contacts := [person ''people/c0'' []]\<rparr>)))
     = [person ''people/c0'' []]
   \<and> contacts (snd (createContact
       (JDict [(''names'', JList [JDict [(''givenName'', JStr ''Jo'')]])])
       ((adapter no_filter [Ok (JDict [(''resourceName'', JStr ''people/c1'')])])
          \<lparr>contacts := [person ''people/c0'' []]\<rparr>)))
     = [person ''people/c0'' [], JDict [(''resourceName'', JStr ''people/c1'')]]
   \<and> contacts (snd (createContact
       (JDict [(''names'', JList [JDict [(''givenName'', JStr ''Jo'')]])])
       ((adapter no_filter [HttpFail ''Quota exceeded''])
          \<lparr>contacts := [person ''people/c0'' []]\<rparr>)))
     = [person ''people/c0'' []]"
proof -
  let ?u = "JDict [(''resourceName'', JStr ''people/c1''), (''names'', JList [JDict [(''givenName'', JStr ''Jo'')]])]"
  let ?c = "JDict [(''names'', JList [JDict [(''givenName'', JStr ''Jo'')]])]"
  let ?res = "JDict [(''resourceName'', JStr ''people/c1'')]"
  let ?s = "(adapter no_filter [Ok ?res])\<lparr>contacts := [person ''people/c0'' []]\<rparr>"
  let ?f = "(adapter no_filter [HttpFail ''Quota exceeded''])\<lparr>contacts := [person ''people/c0'' []]\<rparr>"
  have a: "next_answer ?s = Ok ?res" by (simp add: next_answer_adapter)
  have b: "next_answer ?f = HttpFail ''Quota exceeded''" by (simp add: next_answer_adapter)
  have "fst (createContact ?c ?s) = Inr ?res"
    by (simp add: createContact_def call_def execute_def adapter_def answers_of_def
        display_name_def seq_index_def mark_created_def)
  then have r: "createContact ?c ?s = (Inr ?res, snd (createContact ?c ?s))"
    by (simp add: prod_eq_iff)
  have cs: "contacts ?s = [person ''people/c0'' []]" by simp
  have cf: "contacts ?f = [person ''people/c0'' []]" by simp
  note t = updateContact_keeps_cache [of ?c ?s ?res ?res "snd (createContact ?c ?s)"]
  have 1: "contacts (snd (updateContact ?u ?s)) = [person ''people/c0'' []]"
    using updateContact_keeps_cache [of ?u ?s, THEN conjunct1] cs by (rule trans)
  have 2: "contacts (snd (createContact ?c ?s)) = [person ''people/c0'' [], ?res]"
    using t [THEN conjunct2, THEN conjunct1, THEN mp, OF conjI [OF a r], THEN conjunct2] cs
    by simp
  have 3: "contacts (snd (createContact ?c ?f)) = [person ''people/c0'' []]"
    using updateContact_keeps_cache [of ?c ?f _ _ _ "''Quota exceeded''",
        THEN conjunct2, THEN conjunct2, THEN mp, OF b] cf
    by (rule trans)
  from 1 2 3 show ?thesis by (intro conjI)
qed

section \<open>Properties of fetching one contact\<close>







lemmas filter_eval = filterContactsByLabel_def keep_include_def keep_exclude_def label_flags_def
  contactGroupId_def person_def membership_def


section \<open>Properties of the paginated walk\<close>


lemma serves_Cons:
  "serves s (r # rs) \<Longrightarrow> next_answer s = r \<and> serves (answered q s) rs \<and> serves (sent q s) rs"
proof -
  assume a: "serves s (r # rs)"
  have "next_answer s = r" using a by (auto simp: serves_def next_answer_def)
  moreover have "serves (sent q s) rs"
    unfolding serves_def
  proof (intro allI impI)
    fix i assume "i < length rs"
    then have "answers (service s) (length (requests (service s)) + Suc i) = (r # rs) ! Suc i"
      using a unfolding serves_def by (metis length_Cons Suc_less_eq)
    then show "answers (service (sent q s)) (length (requests (service (sent q s))) + i) = rs ! i"
      by (simp add: sent_def)
  qed
  moreover from this have "serves (answered q s) rs"
    by (simp add: serves_def answered_def)
  ultimately show ?thesis by simp
qed

lemma answered_fields [simp]:
  "labelFilter (answered r s) = labelFilter s"
  "contacts (answered r s) = contacts s"
  "database (answered r s) = database s"
  "apiRequests (answered r s) = apiRequests s + 1"
  "requests (service (answered r s)) = requests (service s) @ [r]"
  "log (answered r s) = log s"
  by (simp_all add: answered_def sent_def)

lemma walked_fields:
  "labelFilter (walked p ps s) = labelFilter s"
  "contacts (walked p ps s) = contacts s"
  "database (walked p ps s) = database s"
  "log (walked p ps s) = log s"
  "apiRequests (walked p ps s) = apiRequests s + length ps"
  "requests (service (walked p ps s)) = requests (service s) @ map list_request (walk_parameters p ps)"
  by (induction p ps s rule: walked.induct) simp_all

lemma length_walk_parameters [simp]: "length (walk_parameters p ps) = length ps"
  by (induction p ps rule: walk_parameters.induct) simp_all

lemma page_get:
  assumes "is_page p"
  shows "py_get p ''nextPageToken'' (JBool False) =
           Inr (case page_token p of Some t \<Rightarrow> t | None \<Rightarrow>
                  (case p of JDict kv \<Rightarrow> (case map_of kv ''nextPageToken'' of Some t \<Rightarrow> t | None \<Rightarrow> JBool False)))"
    and "\<exists>c. py_get p ''connections'' (JList []) = Inr c \<and> py_iter c = Inr (page_contacts p)"
  using assms
  by (auto simp: is_page_def page_token_def page_contacts_def split: json.splits option.splits)

lemma page_step:
  assumes "is_page p" "next_answer s = Ok p"
  shows "fetch_loop parameters acc s =
     (case page_token p of
        Some t \<Rightarrow> fetch_loop (next_parameters parameters p) (acc @ page_contacts p)
                     (answered (list_request parameters) s)
      | None \<Rightarrow>
          (case filterContactsByLabel (labelFilter s) (acc @ page_contacts p) of
             Inl e \<Rightarrow> Some (Inl (Raised e), parameters, answered (list_request parameters) s)
           | Inr filtered \<Rightarrow>
               Some (Inr p, parameters,
                     (answered (list_request parameters) s)\<lparr>contacts := filtered\<rparr>)))"
proof -
  obtain kv where p: "p = JDict kv" using assms(1) by (auto simp: is_page_def split: json.splits)
  obtain c where c: "py_get p ''connections'' (JList []) = Inr c" "py_iter c = Inr (page_contacts p)"
    using page_get(2)[OF assms(1)] by blast
  show ?thesis
    apply (subst fetch_loop.simps)
    using c assms(2) p
    apply (auto simp: call_eq list_request_def answered_def sent_def page_token_def
        next_parameters_def split: option.splits sum.splits)
    done
qed


lemma fetch_loop_fail:
  assumes "next_answer s = HttpFail reason"
  shows "fetch_loop parameters acc s =
           Some (Inl (HttpError reason), parameters, sent (list_request parameters) s)"
  by (subst fetch_loop.simps) (simp add: call_eq assms list_request_def)

lemma fetch_loop_paged:
  assumes "paged ps" "serves s (map Ok ps)"
  shows "fetch_loop parameters acc s =
     (case filterContactsByLabel (labelFilter s) (acc @ concat (map page_contacts ps)) of
        Inl e \<Rightarrow> Some (Inl (Raised e), final_parameters parameters ps, walked parameters ps s)
      | Inr filtered \<Rightarrow>
          Some (Inr (last ps), final_parameters parameters ps,
                (walked parameters ps s)\<lparr>contacts := filtered\<rparr>))"
  using assms
proof (induction ps arbitrary: parameters acc s rule: paged.induct)
  case 1
  then show ?case by simp
next
  case (2 p)
  from 2 have a: "next_answer s = Ok p" using serves_Cons[of s "Ok p" "[]"] by simp
  from 2 have n: "next_parameters parameters p = parameters"
    by (simp add: next_parameters_def)
  from 2 have ip: "is_page p" and tok: "page_token p = None" by simp_all
  show ?case
    by (simp add: page_step[OF ip a] tok n split: sum.splits)
next
  case (3 p q ps)
  let ?s = "answered (list_request parameters) s"
  from "3.prems" have ip: "is_page p" and tok: "page_token p \<noteq> None" and pg: "paged (q # ps)"
    by simp_all
  from "3.prems"(2) have a: "next_answer s = Ok p" and sv: "serves ?s (map Ok (q # ps))"
    using serves_Cons[of s "Ok p" "map Ok (q # ps)" "list_request parameters"] by simp_all
  obtain t where t: "page_token p = Some t" using tok by auto
  have "fetch_loop parameters acc s =
      fetch_loop (next_parameters parameters p) (acc @ page_contacts p) ?s"
    by (simp add: page_step[OF ip a] t)
  also have "\<dots> =
     (case filterContactsByLabel (labelFilter ?s)
             ((acc @ page_contacts p) @ concat (map page_contacts (q # ps))) of
        Inl e \<Rightarrow> Some (Inl (Raised e), final_parameters (next_parameters parameters p) (q # ps),
                        walked (next_parameters parameters p) (q # ps) ?s)
      | Inr filtered \<Rightarrow>
          Some (Inr (last (q # ps)), final_parameters (next_parameters parameters p) (q # ps),
                (walked (next_parameters parameters p) (q # ps) ?s)\<lparr>contacts := filtered\<rparr>))"
    by (rule "3.IH"[OF pg sv])
  finally show ?case by (simp split: sum.splits)
qed

lemma fetch_loop_broken:
  assumes "\<forall>p\<in>set ps. is_page p \<and> page_token p \<noteq> None"
    and "serves s (map Ok ps @ [HttpFail reason])"
  shows "fetch_loop parameters acc s =
           Some (Inl (HttpError reason), final_parameters parameters ps,
                 sent (list_request (final_parameters parameters ps)) (walked parameters ps s))"
  using assms
proof (induction ps arbitrary: parameters acc s)
  case Nil
  then have "next_answer s = HttpFail reason"
    using serves_Cons[of s "HttpFail reason" "[]"] by simp
  then show ?case by (simp add: fetch_loop_fail)
next
  case (Cons p ps)
  let ?s = "answered (list_request parameters) s"
  from Cons.prems(1) have ip: "is_page p" and tok: "page_token p \<noteq> None" by simp_all
  from Cons.prems(2) have a: "next_answer s = Ok p"
    and sv: "serves ?s (map Ok ps @ [HttpFail reason])"
    using serves_Cons[of s "Ok p" "map Ok ps @ [HttpFail reason]" "list_request parameters"]
    by simp_all
  obtain t where t: "page_token p = Some t" using tok by auto
  have "fetch_loop parameters acc s =
      fetch_loop (next_parameters parameters p) (acc @ page_contacts p) ?s"
    by (simp add: page_step[OF ip a] t)
  also have "\<dots> = Some (Inl (HttpError reason),
       final_parameters (next_parameters parameters p) ps,
       sent (list_request (final_parameters (next_parameters parameters p) ps))
         (walked (next_parameters parameters p) ps ?s))"
    using Cons.prems(1) by (intro Cons.IH[OF _ sv]) simp
  finally show ?case by simp
qed


lemma store_sync_token_page:
  assumes "is_page p"
  shows "fst (store_sync_token p s) = Inr ()"
    and "contacts (snd (store_sync_token p s)) = contacts s"
    and "service (snd (store_sync_token p s)) = service s"
    and "apiRequests (snd (store_sync_token p s)) = apiRequests s"
    and "database s = None \<Longrightarrow> snd (store_sync_token p s) = s"
  using assms
  by (auto simp: store_sync_token_def is_page_def split: json.splits option.splits)

lemma paged_last: "paged ps \<Longrightarrow> is_page (last ps) \<and> ps \<noteq> []"
  by (induction ps rule: paged.induct) simp_all

lemma fetchContacts_paged_cases:
  assumes "paged ps" and "serves s (map Ok ps)"
  shows "fetchContacts parameters s =
     (case filterContactsByLabel (labelFilter s) (concat (map page_contacts ps)) of
        Inl e \<Rightarrow>
          Some (Inl (Raised e), final_parameters parameters ps, walked parameters ps s)
      | Inr filtered \<Rightarrow>
          Some (Inr (), final_parameters parameters ps,
                snd (store_sync_token (last ps)
                       ((walked parameters ps s)\<lparr>contacts := filtered\<rparr>))))"
proof (cases "filterContactsByLabel (labelFilter s) (concat (map page_contacts ps))")
  case (Inl e)
  then show ?thesis
    using fetch_loop_paged[OF assms, of parameters "[]"] by (simp add: fetchContacts_def)
next
  case (Inr filtered)
  have lp: "is_page (last ps)" using assms(1) by (simp add: paged_last)
  show ?thesis
    using fetch_loop_paged[OF assms, of parameters "[]"] Inr
      store_sync_token_page(1)[OF lp, of "(walked parameters ps s)\<lparr>contacts := filtered\<rparr>"]
    by (simp add: fetchContacts_def)
qed

lemma serves_adapter: "serves (adapter lf (rs @ rest)) rs"
  by (simp add: serves_def adapter_def answers_of_def nth_append)

lemmas page_eval = is_page_def page_token_def page_contacts_def next_parameters_def

text \<open>
  Claim C2, as amended. Let the remote side answer the next requests with a finite sequence
  of pages, each of which but the last carries a page token. Then \<^verbatim>\<open>__fetchContacts\<close>
  ends: it has made one request for each page, in order, each with the token of the page
  before. The label filter is applied to the contacts of all pages, concatenated in the
  order of the pages. When the filter returns a list, the walk returns and the cache is
  that list; when the filter raises, the walk raises the same exception and the cache is as
  it was before. The cache is written at the last page only: a walk that a failing request
  ends before the last page leaves the cache as it was.
\<close>

theorem fetchContacts_walk:
  "(paged ps \<and> serves s (map Ok ps) \<longrightarrow>
     (\<exists>out s'. fetchContacts parameters s = Some (out, final_parameters parameters ps, s')
        \<and> requests (service s') =
            requests (service s) @ map list_request (walk_parameters parameters ps)
        \<and> length (walk_parameters parameters ps) = length ps
        \<and> apiRequests s' = apiRequests s + length ps
        \<and> (\<forall>filtered.
              filterContactsByLabel (labelFilter s) (concat (map page_contacts ps)) = Inr filtered
              \<longrightarrow> out = Inr () \<and> contacts s' = filtered)
        \<and> (\<forall>e.
              filterContactsByLabel (labelFilter s) (concat (map page_contacts ps)) = Inl e
              \<longrightarrow> out = Inl (Raised e) \<and> contacts s' = contacts s)))
   \<and> ((\<forall>p\<in>set pre. is_page p \<and> page_token p \<noteq> None)
      \<and> serves s (map Ok pre @ [HttpFail reason]) \<longrightarrow>
     (\<exists>s'. fetchContacts parameters s =
             Some (Inl (HttpError reason), final_parameters parameters pre, s')
        \<and> contacts s' = contacts s))"
proof (intro conjI impI)
  assume h: "paged ps \<and> serves s (map Ok ps)"
  then have pg: "paged ps" and sv: "serves s (map Ok ps)" by simp_all
  have lp: "is_page (last ps)" using pg by (simp add: paged_last)
  note eq = fetchContacts_paged_cases[OF pg sv, of parameters]
  show "\<exists>out s'. fetchContacts parameters s = Some (out, final_parameters parameters ps, s')
        \<and> requests (service s') =
            requests (service s) @ map list_request (walk_parameters parameters ps)
        \<and> length (walk_parameters parameters ps) = length ps
        \<and> apiRequests s' = apiRequests s + length ps
        \<and> (\<forall>filtered.
              filterContactsByLabel (labelFilter s) (concat (map page_contacts ps)) = Inr filtered
              \<longrightarrow> out = Inr () \<and> contacts s' = filtered)
        \<and> (\<forall>e.
              filterContactsByLabel (labelFilter s) (concat (map page_contacts ps)) = Inl e
              \<longrightarrow> out = Inl (Raised e) \<and> contacts s' = contacts s)"
  proof (cases "filterContactsByLabel (labelFilter s) (concat (map page_contacts ps))")
    case (Inl e)
    let ?s = "walked parameters ps s"
    have "fetchContacts parameters s = Some (Inl (Raised e), final_parameters parameters ps, ?s)"
      using eq Inl by simp
    moreover have "contacts ?s = contacts s" by (simp add: walked_fields)
    moreover have "requests (service ?s) =
        requests (service s) @ map list_request (walk_parameters parameters ps)"
      by (simp add: walked_fields)
    moreover have "apiRequests ?s = apiRequests s + length ps" by (simp add: walked_fields)
    ultimately show ?thesis using Inl by simp
  next
    case (Inr filtered)
    let ?s = "snd (store_sync_token (last ps) ((walked parameters ps s)\<lparr>contacts := filtered\<rparr>))"
    have "fetchContacts parameters s = Some (Inr (), final_parameters parameters ps, ?s)"
      using eq Inr by simp
    moreover have "contacts ?s = filtered"
      by (simp add: store_sync_token_page(2)[OF lp])
    moreover have "requests (service ?s) =
        requests (service s) @ map list_request (walk_parameters parameters ps)"
      by (simp add: store_sync_token_page(3)[OF lp] walked_fields)
    moreover have "apiRequests ?s = apiRequests s + length ps"
      by (simp add: store_sync_token_page(4)[OF lp] walked_fields)
    ultimately show ?thesis using Inr by simp
  qed
next
  assume h: "(\<forall>p\<in>set pre. is_page p \<and> page_token p \<noteq> None)
      \<and> serves s (map Ok pre @ [HttpFail reason])"
  let ?s = "sent (list_request (final_parameters parameters pre)) (walked parameters pre s)"
  have "fetch_loop parameters [] s =
      Some (Inl (HttpError reason), final_parameters parameters pre, ?s)"
    using h fetch_loop_broken[of pre s reason parameters "[]"] by simp
  then have "fetchContacts parameters s =
      Some (Inl (HttpError reason), final_parameters parameters pre, ?s)"
    by (simp add: fetchContacts_def)
  moreover have "contacts ?s = contacts s"
    by (simp add: sent_def walked_fields)
  ultimately show "\<exists>s'. fetchContacts parameters s =
             Some (Inl (HttpError reason), final_parameters parameters pre, s')
        \<and> contacts s' = contacts s"
    by simp
qed

text \<open>
  A walk over two pages with an exclude filter; the same walk when the last page holds a
  contact without memberships, as a sync reports a deleted contact; and a walk that fails
  at the second request.
\<close>

theorem fetchContacts_walk_witness:
  "(\<exists>s'. fetchContacts [(''resourceName'', JStr ''people/me''), (''pageSize'', JInt 2)]
           (adapter \<lparr>include_ids = [], exclude_ids = [''contactGroups/b'']\<rparr>
              [Ok (JDict [(''connections'', JList [person ''people/1'' [''contactGroups/a''],
                                                   person ''people/2'' [''contactGroups/b'']]),
                          (''nextPageToken'', JStr ''t1'')]),
               Ok (JDict [(''connections'', JList [person ''people/3'' []]),
                          (''nextSyncToken'', JStr ''s1'')])])
         = Some (Inr (),
                 [(''resourceName'', JStr ''people/me''), (''pageSize'', JInt 2),
                  (''pageToken'', JStr ''t1'')], s')
       \<and> contacts s' = [person ''people/1'' [''contactGroups/a''], person ''people/3'' []]
       \<and> requests (service s') =
            [list_request [(''resourceName'', JStr ''people/me''), (''pageSize'', JInt 2)],
             list_request [(''resourceName'', JStr ''people/me''), (''pageSize'', JInt 2),
                           (''pageToken'', JStr ''t1'')]]
       \<and> apiRequests s' = 2)
   \<and> (\<exists>s'. fetchContacts [(''resourceName'', JStr ''people/me''), (''pageSize'', JInt 2)]
           ((adapter \<lparr>include_ids = [], exclude_ids = [''contactGroups/b'']\<rparr>
              [Ok (JDict [(''connections'', JList [person ''people/1'' [''contactGroups/a'']]),
                          (''nextPageToken'', JStr ''t1'')]),
               Ok (JDict [(''connections'', JList [JDict [(''resourceName'', JStr ''people/3''),
                             (''metadata'', JDict [(''deleted'', JBool True)])]])])])
             \<lparr>contacts := [person ''people/0'' []]\<rparr>)
         = Some (Inl (Raised (KeyError (JStr ''memberships''))),
                 [(''resourceName'', JStr ''people/me''), (''pageSize'', JInt 2),
                  (''pageToken'', JStr ''t1'')], s')
       \<and> contacts s' = [person ''people/0'' []]
       \<and> apiRequests s' = 2)
   \<and> (\<exists>s'. fetchContacts [(''resourceName'', JStr ''people/me''), (''pageSize'', JInt 2)]
           ((adapter \<lparr>include_ids = [], exclude_ids = [''contactGroups/b'']\<rparr>
              [Ok (JDict [(''connections'', JList [person ''people/1'' [''contactGroups/a''],
                                                   person ''people/2'' [''contactGroups/b'']]),
                          (''nextPageToken'', JStr ''t1'')]),
               HttpFail ''Backend Error''])
             \<lparr>contacts := [person ''people/0'' []]\<rparr>)
         = Some (Inl (HttpError ''Backend Error''),
                 [(''resourceName'', JStr ''people/me''), (''pageSize'', JInt 2),
                  (''pageToken'', JStr ''t1'')], s')
       \<and> contacts s' = [person ''people/0'' []])"
proof -
  let ?lf = "\<lparr>include_ids = [], exclude_ids = [''contactGroups/b'']\<rparr>"
  let ?pa = "JDict [(''connections'', JList [person ''people/1'' [''contactGroups/a''],
                                                   person ''people/2'' [''contactGroups/b'']]),
                          (''nextPageToken'', JStr ''t1'')]"
  let ?pb = "JDict [(''connections'', JList [person ''people/3'' []]),
                          (''nextSyncToken'', JStr ''s1'')]"
  let ?pc = "JDict [(''connections'', JList [person ''people/1'' [''contactGroups/a'']]),
                          (''nextPageToken'', JStr ''t1'')]"
  let ?pd = "JDict [(''connections'', JList [JDict [(''resourceName'', JStr ''people/3''),
                             (''metadata'', JDict [(''deleted'', JBool True)])]])]"
  let ?par = "[(''resourceName'', JStr ''people/me''), (''pageSize'', JInt 2)]"
  let ?s = "adapter ?lf ([Ok ?pa, Ok ?pb] @ [])"
  let ?r = "(adapter ?lf ([Ok ?pc, Ok ?pd] @ []))\<lparr>contacts := [person ''people/0'' []]\<rparr>"
  let ?f = "(adapter ?lf ([Ok ?pa, HttpFail ''Backend Error''] @ []))\<lparr>contacts := [person ''people/0'' []]\<rparr>"
  let ?kept = "[person ''people/1'' [''contactGroups/a''], person ''people/3'' []]"
  have pg: "paged [?pa, ?pb]" by (simp add: page_eval)
  have sv: "serves ?s (map Ok [?pa, ?pb])" using serves_adapter[of ?lf "[Ok ?pa, Ok ?pb]" "[]"] by simp
  have fl: "filterContactsByLabel (labelFilter ?s) (concat (map page_contacts [?pa, ?pb])) = Inr ?kept"
    by (simp add: adapter_def page_eval filter_eval)
  have fp: "final_parameters ?par [?pa, ?pb] = ?par @ [(''pageToken'', JStr ''t1'')]"
    by (simp add: page_eval)
  have wp: "walk_parameters ?par [?pa, ?pb] = [?par, ?par @ [(''pageToken'', JStr ''t1'')]]"
    by (simp add: page_eval)
  have rq: "requests (service ?s) = []" and ap: "apiRequests ?s = 0" by (simp_all add: adapter_def)
  note a = fetchContacts_walk [where ps = "[?pa, ?pb]" and s = ?s and parameters = ?par,
      THEN conjunct1, THEN mp, OF conjI [OF pg sv]]
  have 1: "\<exists>s'. fetchContacts ?par ?s = Some (Inr (), ?par @ [(''pageToken'', JStr ''t1'')], s')
       \<and> contacts s' = ?kept
       \<and> requests (service s') = [list_request ?par, list_request (?par @ [(''pageToken'', JStr ''t1'')])]
       \<and> apiRequests s' = 2"
    using a unfolding fp wp rq ap fl by (auto simp: numeral_2_eq_2)
  have pgr: "paged [?pc, ?pd]" by (simp add: page_eval)
  have svr: "serves ?r (map Ok [?pc, ?pd])"
    using serves_adapter[of ?lf "[Ok ?pc, Ok ?pd]" "[]"] by (simp add: serves_def)
  have flr: "filterContactsByLabel (labelFilter ?r) (concat (map page_contacts [?pc, ?pd]))
      = Inl (KeyError (JStr ''memberships''))"
    by (simp add: adapter_def page_eval filter_eval)
  have fpr: "final_parameters ?par [?pc, ?pd] = ?par @ [(''pageToken'', JStr ''t1'')]"
    by (simp add: page_eval)
  have cr: "contacts ?r = [person ''people/0'' []]" and apr: "apiRequests ?r = 0"
    by (simp_all add: adapter_def)
  note c = fetchContacts_walk [where ps = "[?pc, ?pd]" and s = ?r and parameters = ?par,
      THEN conjunct1, THEN mp, OF conjI [OF pgr svr]]
  have 2: "\<exists>s'. fetchContacts ?par ?r =
         Some (Inl (Raised (KeyError (JStr ''memberships''))),
               ?par @ [(''pageToken'', JStr ''t1'')], s')
       \<and> contacts s' = [person ''people/0'' []]
       \<and> apiRequests s' = 2"
    using c unfolding fpr flr cr apr by (auto simp: numeral_2_eq_2)
  have pre: "\<forall>p\<in>set [?pa]. is_page p \<and> page_token p \<noteq> None" by (simp add: page_eval)
  have svf: "serves ?f (map Ok [?pa] @ [HttpFail ''Backend Error''])"
    using serves_adapter[of ?lf "[Ok ?pa, HttpFail ''Backend Error'']" "[]"]
    by (simp add: serves_def)
  have fpf: "final_parameters ?par [?pa] = ?par @ [(''pageToken'', JStr ''t1'')]"
    by (simp add: page_eval)
  note b = fetchContacts_walk [where s = ?f and parameters = ?par and pre = "[?pa]"
      and reason = "''Backend Error''", THEN conjunct2, THEN mp, OF conjI [OF pre svf]]
  have 3: "\<exists>s'. fetchContacts ?par ?f =
         Some (Inl (HttpError ''Backend Error''), ?par @ [(''pageToken'', JStr ''t1'')], s')
       \<and> contacts s' = [person ''people/0'' []]"
    using b unfolding fpf by simp
  from 1 2 3 show ?thesis by simp
qed

text \<open>
  Claim C2 as it is stated fails: both pages are requested, but the last page holds a
  contact without memberships, the exclude filter raises on it, and the cache is not
  replaced by any filtered list.
\<close>

theorem fetchContacts_cache_not_replaced_counterexample:
  "walk_returned (fetchContacts [(''resourceName'', JStr ''people/me'')]
       ((adapter \<lparr>include_ids = [], exclude_ids = [''contactGroups/b'']\<rparr>
          [Ok (JDict [(''connections'', JList [person ''people/1'' [''contactGroups/a'']]),
                      (''nextPageToken'', JStr ''t1'')]),
           Ok (JDict [(''connections'', JList [JDict [(''resourceName'', JStr ''people/2''),
                         (''metadata'', JDict [(''deleted'', JBool True)])]])])])
         \<lparr>contacts := [person ''people/0'' []]\<rparr>))
     = Some (Inl (Raised (KeyError (JStr ''memberships''))))
   \<and> walk_cache (fetchContacts [(''resourceName'', JStr ''people/me'')]
       ((adapter \<lparr>include_ids = [], exclude_ids = [''contactGroups/b'']\<rparr>
          [Ok (JDict [(''connections'', JList [person ''people/1'' [''contactGroups/a'']]),
                      (''nextPageToken'', JStr ''t1'')]),
           Ok (JDict [(''connections'', JList [JDict [(''resourceName'', JStr ''people/2''),
                         (''metadata'', JDict [(''deleted'', JBool True)])]])])])
         \<lparr>contacts := [person ''people/0'' []]\<rparr>))
     = Some [person ''people/0'' []]
   \<and> length (walk_requests (fetchContacts [(''resourceName'', JStr ''people/me'')]
       ((adapter \<lparr>include_ids = [], exclude_ids = [''contactGroups/b'']\<rparr>
          [Ok (JDict [(''connections'', JList [person ''people/1'' [''contactGroups/a'']]),
                      (''nextPageToken'', JStr ''t1'')]),
           Ok (JDict [(''connections'', JList [JDict [(''resourceName'', JStr ''people/2''),
                         (''metadata'', JDict [(''deleted'', JBool True)])]])])])
         \<lparr>contacts := [person ''people/0'' []]\<rparr>))) = 2"
proof -
  let ?lf = "\<lparr>include_ids = [], exclude_ids = [''contactGroups/b'']\<rparr>"
  let ?pc = "JDict [(''connections'', JList [person ''people/1'' [''contactGroups/a'']]),
                      (''nextPageToken'', JStr ''t1'')]"
  let ?pd = "JDict [(''connections'', JList [JDict [(''resourceName'', JStr ''people/2''),
                         (''metadata'', JDict [(''deleted'', JBool True)])]])]"
  let ?par = "[(''resourceName'', JStr ''people/me'')]"
  let ?r = "(adapter ?lf ([Ok ?pc, Ok ?pd] @ []))\<lparr>contacts := [person ''people/0'' []]\<rparr>"
  have pg: "paged [?pc, ?pd]" by (simp add: page_eval)
  have sv: "serves ?r (map Ok [?pc, ?pd])"
    using serves_adapter[of ?lf "[Ok ?pc, Ok ?pd]" "[]"] by (simp add: serves_def)
  have fl: "filterContactsByLabel (labelFilter ?r) (concat (map page_contacts [?pc, ?pd]))
      = Inl (KeyError (JStr ''memberships''))"
    by (simp add: adapter_def page_eval filter_eval)
  have eq: "fetchContacts ?par ?r =
      Some (Inl (Raised (KeyError (JStr ''memberships''))), final_parameters ?par [?pc, ?pd],
            walked ?par [?pc, ?pd] ?r)"
    using fetchContacts_paged_cases[OF pg sv, of ?par] unfolding fl by simp
  have 1: "walk_returned (fetchContacts ?par ?r) = Some (Inl (Raised (KeyError (JStr ''memberships''))))"
    unfolding eq by (simp add: walk_returned_def)
  have 2: "walk_cache (fetchContacts ?par ?r) = Some [person ''people/0'' []]"
    unfolding eq by (simp add: walk_cache_def walked_fields)
  have 3: "length (walk_requests (fetchContacts ?par ?r)) = 2"
    unfolding eq by (simp add: walk_requests_def walked_fields adapter_def)
  from 1 2 3 show ?thesis by simp
qed

section \<open>The retry without the sync token\<close>

lemma serves_prefix: "serves s (xs @ ys) \<Longrightarrow> serves s xs"
  by (auto simp: serves_def nth_append)

lemma serves_walked: "serves s (map Ok ps @ rest) \<Longrightarrow> serves (walked p ps s) rest"
proof (induction ps arbitrary: p s)
  case Nil
  then show ?case by simp
next
  case (Cons a ps)
  from Cons.prems have "serves (answered (list_request p) s) (map Ok ps @ rest)"
    using serves_Cons[of s "Ok a" "map Ok ps @ rest" "list_request p"] by simp
  then show ?case by (simp add: Cons.IH)
qed

lemma serves_log_msg [simp]: "serves (log_msg l m s) rs = serves s rs"
  by (simp add: serves_def log_msg_def)

lemma serves_print_msg [simp]: "serves (print_msg m s) rs = serves s rs"
  by (simp add: serves_def print_msg_def)

lemma serves_write_msg [simp]: "serves (write_msg m s) rs = serves s rs"
  by (simp add: serves_def write_msg_def)

lemma message_fields [simp]:
  "labelFilter (log_msg l m s) = labelFilter s"
  "labelFilter (print_msg m s) = labelFilter s"
  "labelFilter (write_msg m s) = labelFilter s"
  "labelFilter (sent r s) = labelFilter s"
  "requests (service (log_msg l m s)) = requests (service s)"
  "requests (service (print_msg m s)) = requests (service s)"
  "requests (service (write_msg m s)) = requests (service s)"
  "requests (service (sent r s)) = requests (service s) @ [r]"
  "contacts (log_msg l m s) = contacts s"
  "contacts (print_msg m s) = contacts s"
  "contacts (sent r s) = contacts s"
  by (simp_all add: log_msg_def print_msg_def write_msg_def sent_def)

lemma fetchContacts_broken_eq:
  assumes "\<forall>p\<in>set pre. is_page p \<and> page_token p \<noteq> None"
    and "serves s (map Ok pre @ HttpFail reason # rest)"
  shows "fetchContacts parameters s =
           Some (Inl (HttpError reason), final_parameters parameters pre,
                 sent (list_request (final_parameters parameters pre)) (walked parameters pre s))"
proof -
  have "serves s ((map Ok pre @ [HttpFail reason]) @ rest)" using assms(2) by simp
  then have "serves s (map Ok pre @ [HttpFail reason])" by (rule serves_prefix)
  then show ?thesis
    using fetch_loop_broken[OF assms(1), of s reason parameters "[]"]
    by (simp add: fetchContacts_def)
qed

lemma fetchContacts_paged_eq:
  assumes "paged ps" and "serves s (map Ok ps @ rest)"
    and "filterContactsByLabel (labelFilter s) (concat (map page_contacts ps)) = Inr filtered"
  shows "fetchContacts parameters s =
           Some (Inr (), final_parameters parameters ps,
                 snd (store_sync_token (last ps) ((walked parameters ps s)\<lparr>contacts := filtered\<rparr>)))"
proof -
  have sv: "serves s (map Ok ps)" using assms(2) by (rule serves_prefix)
  have lp: "is_page (last ps)" using assms(1) by (simp add: paged_last)
  show ?thesis
    using fetch_loop_paged[OF assms(1) sv, of parameters "[]"] assms(3)
      store_sync_token_page(1)[OF lp, of "(walked parameters ps s)\<lparr>contacts := filtered\<rparr>"]
    by (simp add: fetchContacts_def)
qed

lemma map_of_final_parameters:
  "k \<noteq> ''pageToken'' \<Longrightarrow> map_of (final_parameters p ps) k = map_of p k"
  by (induction p ps rule: final_parameters.induct)
     (auto simp: next_parameters_def update_conv' split: option.splits)

text \<open>
  The retry of \<^verbatim>\<open>getContacts\<close>. The first walk reads the pages \<open>pre\<close> and then
  fails with a reason that names the sync token; the second walk is served the pages
  \<open>ps\<close>. It starts from the parameters as the first walk left them, without the sync
  token: they still hold the page token of the last page of \<open>pre\<close>.
\<close>

lemma getContacts_retry:
  assumes fresh: "\<not> dataAlreadyFetched s \<or> refetchData"
    and pre: "\<forall>p\<in>set pre. is_page p \<and> page_token p \<noteq> None"
    and reason: "contains ''Sync token'' reason"
    and tok: "map_of (list_parameters params) ''syncToken'' = Some tok"
    and ps: "paged ps"
    and sv: "serves s (map Ok pre @ HttpFail reason # map Ok ps)"
    and fl: "filterContactsByLabel (labelFilter s) (concat (map page_contacts ps)) = Inr filtered"
  shows "returned (getContacts refetchData params s) = Some (Inr filtered)"
    and "requests_made (getContacts refetchData params s) =
           requests (service s)
           @ map list_request (walk_parameters (list_parameters params) pre)
           @ [list_request (final_parameters (list_parameters params) pre)]
           @ map list_request
               (walk_parameters
                  (AList.delete ''syncToken'' (final_parameters (list_parameters params) pre)) ps)"
proof -
  let ?lp = "list_parameters params"
  let ?fp = "final_parameters ?lp pre"
  let ?sa = "write_msg [Lit [CHR 0x0D], Lit ''Fetching Google contacts...'']
               (log_msg INFO [Lit ''Fetching Google contacts...''] s)"
  let ?sb = "sent (list_request ?fp) (walked ?lp pre ?sa)"
  let ?sc = "print_msg (newline # token_expired) (log_msg WARNING token_expired ?sb)"
  let ?pp = "AList.delete ''syncToken'' ?fp"
  let ?sd = "snd (store_sync_token (last ps) ((walked ?pp ps ?sc)\<lparr>contacts := filtered\<rparr>))"
  have lp: "is_page (last ps)" using ps by (simp add: paged_last)
  have sva: "serves ?sa (map Ok pre @ HttpFail reason # map Ok ps)" using sv by simp
  have first: "fetchContacts ?lp ?sa = Some (Inl (HttpError reason), ?fp, ?sb)"
    by (rule fetchContacts_broken_eq[OF pre sva])
  have "serves (walked ?lp pre ?sa) (HttpFail reason # map Ok ps)"
    using sva by (rule serves_walked)
  then have "serves ?sb (map Ok ps)"
    using serves_Cons[of "walked ?lp pre ?sa" "HttpFail reason" "map Ok ps" "list_request ?fp"]
    by simp
  then have svc: "serves ?sc (map Ok ps @ [])" by simp
  have flc: "filterContactsByLabel (labelFilter ?sc) (concat (map page_contacts ps)) = Inr filtered"
    using fl by (simp add: walked_fields)
  have second: "fetchContacts ?pp ?sc = Some (Inr (), final_parameters ?pp ps, ?sd)"
    by (rule fetchContacts_paged_eq[OF ps svc flc])
  have pop: "dict_pop ''syncToken'' ?fp = Inr ?pp"
    using tok by (simp add: dict_pop_def map_of_final_parameters)
  have g: "getContacts refetchData params s = Some (fetch_finished ?sd)"
    using fresh reason by (auto simp: getContacts_def Let_def first pop second)
  have c: "contacts ?sd = filtered"
    by (simp add: store_sync_token_page(2)[OF lp])
  show "returned (getContacts refetchData params s) = Some (Inr filtered)"
    by (simp add: g returned_def fetch_finished_def c)
  show "requests_made (getContacts refetchData params s) =
           requests (service s)
           @ map list_request (walk_parameters ?lp pre)
           @ [list_request ?fp]
           @ map list_request (walk_parameters ?pp ps)"
    by (simp add: g requests_made_def fetch_finished_def store_sync_token_page(3)[OF lp]
        walked_fields print_msg_def write_msg_def log_msg_def)
qed


text \<open>
  The other failures of \<^verbatim>\<open>getContacts\<close>. A walk that fails with a reason that does
  not name the sync token is not repeated: the reason is raised as an \<^verbatim>\<open>Exception\<close>.
\<close>

lemma getContacts_other_failure:
  assumes fresh: "\<not> dataAlreadyFetched s \<or> refetchData"
    and pre: "\<forall>p\<in>set pre. is_page p \<and> page_token p \<noteq> None"
    and reason: "\<not> contains ''Sync token'' reason"
    and sv: "serves s (map Ok pre @ [HttpFail reason])"
  shows "returned (getContacts refetchData params s) = Some (Inl (Exception [Lit reason]))"
    and "requests_made (getContacts refetchData params s) =
           requests (service s)
           @ map list_request (walk_parameters (list_parameters params) pre)
           @ [list_request (final_parameters (list_parameters params) pre)]"
proof -
  let ?lp = "list_parameters params"
  let ?sa = "write_msg [Lit [CHR 0x0D], Lit ''Fetching Google contacts...'']
               (log_msg INFO [Lit ''Fetching Google contacts...''] s)"
  let ?sb = "sent (list_request (final_parameters ?lp pre)) (walked ?lp pre ?sa)"
  have sva: "serves ?sa (map Ok pre @ HttpFail reason # [])" using sv by simp
  have first: "fetchContacts ?lp ?sa = Some (Inl (HttpError reason), final_parameters ?lp pre, ?sb)"
    by (rule fetchContacts_broken_eq[OF pre sva])
  have g: "getContacts refetchData params s = Some (Inl (Exception [Lit reason]), ?sb)"
    using fresh reason by (auto simp: getContacts_def Let_def first)
  show "returned (getContacts refetchData params s) = Some (Inl (Exception [Lit reason]))"
    by (simp add: g returned_def)
  show "requests_made (getContacts refetchData params s) =
           requests (service s)
           @ map list_request (walk_parameters ?lp pre)
           @ [list_request (final_parameters ?lp pre)]"
    by (simp add: g requests_made_def walked_fields)
qed

text \<open>
  A second walk that fails is not repeated either, whatever its reason: the
  \<^verbatim>\<open>HttpError\<close> of the second walk reaches the caller as it is.
\<close>

lemma getContacts_second_failure:
  assumes fresh: "\<not> dataAlreadyFetched s \<or> refetchData"
    and pre: "\<forall>p\<in>set pre. is_page p \<and> page_token p \<noteq> None"
    and reason: "contains ''Sync token'' reason"
    and tok: "map_of (list_parameters params) ''syncToken'' = Some tok"
    and ps: "\<forall>p\<in>set ps. is_page p \<and> page_token p \<noteq> None"
    and sv: "serves s (map Ok pre @ HttpFail reason # map Ok ps @ [HttpFail again])"
  shows "returned (getContacts refetchData params s) = Some (Inl (HttpError again))"
    and "length (requests_made (getContacts refetchData params s)) =
           length (requests (service s)) + length pre + 1 + length ps + 1"
proof -
  let ?lp = "list_parameters params"
  let ?fp = "final_parameters ?lp pre"
  let ?sa = "write_msg [Lit [CHR 0x0D], Lit ''Fetching Google contacts...'']
               (log_msg INFO [Lit ''Fetching Google contacts...''] s)"
  let ?sb = "sent (list_request ?fp) (walked ?lp pre ?sa)"
  let ?sc = "print_msg (newline # token_expired) (log_msg WARNING token_expired ?sb)"
  let ?pp = "AList.delete ''syncToken'' ?fp"
  let ?sd = "sent (list_request (final_parameters ?pp ps)) (walked ?pp ps ?sc)"
  have sva: "serves ?sa (map Ok pre @ HttpFail reason # (map Ok ps @ [HttpFail again]))"
    using sv by simp
  have first: "fetchContacts ?lp ?sa = Some (Inl (HttpError reason), ?fp, ?sb)"
    by (rule fetchContacts_broken_eq[OF pre sva])
  have "serves (walked ?lp pre ?sa) (HttpFail reason # (map Ok ps @ [HttpFail again]))"
    using sva by (rule serves_walked)
  then have "serves ?sb (map Ok ps @ [HttpFail again])"
    using serves_Cons[of "walked ?lp pre ?sa" "HttpFail reason" "map Ok ps @ [HttpFail again]"
        "list_request ?fp"]
    by simp
  then have svc: "serves ?sc (map Ok ps @ HttpFail again # [])" by simp
  have second: "fetchContacts ?pp ?sc = Some (Inl (HttpError again), final_parameters ?pp ps, ?sd)"
    by (rule fetchContacts_broken_eq[OF ps svc])
  have pop: "dict_pop ''syncToken'' ?fp = Inr ?pp"
    using tok by (simp add: dict_pop_def map_of_final_parameters)
  have g: "getContacts refetchData params s = Some (Inl (HttpError again), ?sd)"
    using fresh reason by (auto simp: getContacts_def Let_def first pop second)
  show "returned (getContacts refetchData params s) = Some (Inl (HttpError again))"
    by (simp add: g returned_def)
  show "length (requests_made (getContacts refetchData params s)) =
           length (requests (service s)) + length pre + 1 + length ps + 1"
    by (simp add: g requests_made_def walked_fields)
qed

text \<open>
  Without a \<^verbatim>\<open>syncToken\<close> among the parameters, \<^verbatim>\<open>parameters.pop\<close> raises in the
  handler and there is no second walk.
\<close>

lemma getContacts_no_token:
  assumes fresh: "\<not> dataAlreadyFetched s \<or> refetchData"
    and pre: "\<forall>p\<in>set pre. is_page p \<and> page_token p \<noteq> None"
    and reason: "contains ''Sync token'' reason"
    and tok: "map_of (list_parameters params) ''syncToken'' = None"
    and sv: "serves s (map Ok pre @ [HttpFail reason])"
  shows "returned (getContacts refetchData params s) = Some (Inl (Raised (KeyError (JStr ''syncToken''))))"
proof -
  let ?lp = "list_parameters params"
  let ?fp = "final_parameters ?lp pre"
  let ?sa = "write_msg [Lit [CHR 0x0D], Lit ''Fetching Google contacts...'']
               (log_msg INFO [Lit ''Fetching Google contacts...''] s)"
  let ?sb = "sent (list_request ?fp) (walked ?lp pre ?sa)"
  have sva: "serves ?sa (map Ok pre @ HttpFail reason # [])" using sv by simp
  have first: "fetchContacts ?lp ?sa = Some (Inl (HttpError reason), ?fp, ?sb)"
    by (rule fetchContacts_broken_eq[OF pre sva])
  have pop: "dict_pop ''syncToken'' ?fp = Inl (KeyError (JStr ''syncToken''))"
    using tok by (simp add: dict_pop_def map_of_final_parameters)
  show ?thesis
    using fresh reason by (auto simp: getContacts_def Let_def first pop returned_def)
qed

text \<open>
  Claim C3, at a walk that fails after its first page. The listing is called with a sync
  token; the first page carries the page token \<^verbatim>\<open>t1\<close>; the second request fails with
  "Sync token is expired". \<^verbatim>\<open>getContacts\<close> removes the sync token and walks again, but
  the dict still holds \<^verbatim>\<open>pageToken\<close>: the third request asks for the page after
  \<^verbatim>\<open>t1\<close>, not for the first page, and the contact of the first page is not among the
  contacts returned.
\<close>

theorem getContacts_retry_keeps_page_token:
  "returned (getContacts False [(''syncToken'', JStr ''tok'')]
       (adapter no_filter
          [Ok (JDict [(''connections'', JList [person ''people/1'' []]),
                      (''nextPageToken'', JStr ''t1'')]),
           HttpFail ''Sync token is expired. Clear local cache and retry call without the sync token.'',
           Ok (JDict [(''connections'', JList [person ''people/2'' []])])]))
     = Some (Inr [person ''people/2'' []])
   \<and> requests_made (getContacts False [(''syncToken'', JStr ''tok'')]
       (adapter no_filter
          [Ok (JDict [(''connections'', JList [person ''people/1'' []]),
                      (''nextPageToken'', JStr ''t1'')]),
           HttpFail ''Sync token is expired. Clear local cache and retry call without the sync token.'',
           Ok (JDict [(''connections'', JList [person ''people/2'' []])])]))
     = [list_request [(''resourceName'', JStr ''people/me''), (''pageSize'', JInt 1000),
                      (''personFields'', JStr syncFields), (''requestSyncToken'', JBool True),
                      (''syncToken'', JStr ''tok'')],
        list_request [(''resourceName'', JStr ''people/me''), (''pageSize'', JInt 1000),
                      (''personFields'', JStr syncFields), (''requestSyncToken'', JBool True),
                      (''syncToken'', JStr ''tok''), (''pageToken'', JStr ''t1'')],
        list_request [(''resourceName'', JStr ''people/me''), (''pageSize'', JInt 1000),
                      (''personFields'', JStr syncFields), (''requestSyncToken'', JBool True),
                      (''pageToken'', JStr ''t1'')]]"
proof -
  let ?pa = "JDict [(''connections'', JList [person ''people/1'' []]),
                      (''nextPageToken'', JStr ''t1'')]"
  let ?pb = "JDict [(''connections'', JList [person ''people/2'' []])]"
  let ?why = "''Sync token is expired. Clear local cache and retry call without the sync token.''"
  let ?s = "adapter no_filter ([Ok ?pa, HttpFail ?why, Ok ?pb] @ [])"
  let ?params = "[(''syncToken'', JStr ''tok'')]"
  let ?base = "[(''resourceName'', JStr ''people/me''), (''pageSize'', JInt 1000),
                      (''personFields'', JStr syncFields), (''requestSyncToken'', JBool True)]"
  have lp: "list_parameters ?params = ?base @ [(''syncToken'', JStr ''tok'')]"
    by (simp add: list_parameters_def)
  have fresh: "\<not> dataAlreadyFetched ?s \<or> False" by (simp add: adapter_def)
  have pre: "\<forall>p\<in>set [?pa]. is_page p \<and> page_token p \<noteq> None" by (simp add: page_eval)
  have why: "contains ''Sync token'' ?why" by simp
  have tok: "map_of (list_parameters ?params) ''syncToken'' = Some (JStr ''tok'')"
    by (simp add: lp)
  have ps: "paged [?pb]" by (simp add: page_eval)
  have sv: "serves ?s (map Ok [?pa] @ HttpFail ?why # map Ok [?pb])"
    using serves_adapter[of no_filter "[Ok ?pa, HttpFail ?why, Ok ?pb]" "[]"] by simp
  have fl: "filterContactsByLabel (labelFilter ?s) (concat (map page_contacts [?pb]))
      = Inr [person ''people/2'' []]"
    by (simp add: adapter_def no_filter_def filterContactsByLabel_def page_eval)
  have rq: "requests (service ?s) = []" by (simp add: adapter_def)
  have fp: "final_parameters (list_parameters ?params) [?pa]
      = ?base @ [(''syncToken'', JStr ''tok''), (''pageToken'', JStr ''t1'')]"
    by (simp add: lp page_eval)
  have wa: "walk_parameters (list_parameters ?params) [?pa] = [?base @ [(''syncToken'', JStr ''tok'')]]"
    by (simp add: lp)
  have wb: "walk_parameters (AList.delete ''syncToken''
        (?base @ [(''syncToken'', JStr ''tok''), (''pageToken'', JStr ''t1'')])) [?pb]
      = [?base @ [(''pageToken'', JStr ''t1'')]]"
    by (simp add: AList.delete_eq)
  note r = getContacts_retry [OF fresh pre why tok ps sv fl]
  have 1: "returned (getContacts False ?params ?s) = Some (Inr [person ''people/2'' []])"
    by (rule r(1))
  have 2: "requests_made (getContacts False ?params ?s) =
      [list_request (?base @ [(''syncToken'', JStr ''tok'')]),
       list_request (?base @ [(''syncToken'', JStr ''tok''), (''pageToken'', JStr ''t1'')]),
       list_request (?base @ [(''pageToken'', JStr ''t1'')])]"
    unfolding r(2) fp wa wb rq by simp
  from 1 2 show ?thesis by simp
qed

end
